theory Spec2Isabelle
  imports Main
begin

section \<open>JavaScript strings\<close>

text \<open>
  A JavaScript string is modelled as a \<^typ>\<open>string\<close>, one \<^typ>\<open>char\<close> per code unit.
  The functions below are the library functions the repository calls
  (\<^verbatim>\<open>split\<close>, \<^verbatim>\<open>join\<close>, \<^verbatim>\<open>toLowerCase\<close>, \<^verbatim>\<open>includes\<close>), on the ASCII range:
  case mapping is the one of the letters A to Z, every other character is left as it is.
\<close>

text \<open>\<^verbatim>\<open>s.split(d)\<close> for a one-character separator: never empty, \<^verbatim>\<open>"".split(d) = [""]\<close>.\<close>

fun split_on :: "char \<Rightarrow> string \<Rightarrow> string list" where
  "split_on d [] = [[]]"
| "split_on d (c # cs) =
     (if c = d then [] # split_on d cs
      else (case split_on d cs of
              [] \<Rightarrow> [[c]]
            | p # ps \<Rightarrow> (c # p) # ps))"

text \<open>\<^verbatim>\<open>parts.join(sep)\<close>.\<close>

fun join :: "string \<Rightarrow> string list \<Rightarrow> string" where
  "join sep [] = []"
| "join sep [x] = x"
| "join sep (x # y # ys) = x @ sep @ join sep (y # ys)"

definition toLowerChar :: "char \<Rightarrow> char" where
  "toLowerChar c =
     (case map_of (zip ''ABCDEFGHIJKLMNOPQRSTUVWXYZ'' ''abcdefghijklmnopqrstuvwxyz'') c of
        None \<Rightarrow> c
      | Some l \<Rightarrow> l)"

definition toLowerCase :: "string \<Rightarrow> string" where
  "toLowerCase s = map toLowerChar s"

section \<open>File filter (fileFilter.ts)\<close>

record RawFile =
  path :: string
  rawContent :: string
  sizeBytes :: int

definition SUPPORTED_EXTENSIONS :: "string list" where
  "SUPPORTED_EXTENSIONS =
     [''.ts'', ''.tsx'', ''.js'', ''.jsx'', ''.mjs'', ''.cjs'',
      ''.py'',
      ''.md'', ''.mdx'', ''.json'', ''.yaml'', ''.yml'', ''.toml'']"

definition IGNORED_PATHS :: "string list" where
  "IGNORED_PATHS =
     [''node_modules'', ''.pnp'', ''vendor'', ''venv'', ''.venv'', ''env'', ''__pypackages__'',
      ''dist'', ''build'', ''out'', ''.next'', ''.nuxt'', ''.output'', ''.cache'',
      ''__pycache__'', ''.pytest_cache'', ''*.egg-info'',
      ''.git'', ''.svn'', ''.hg'', ''.idea'', ''.vscode'',
      ''coverage'', ''.nyc_output'', ''htmlcov'',
      ''tmp'', ''temp'', ''logs'']"

definition IGNORED_FILENAMES :: "string list" where
  "IGNORED_FILENAMES =
     [''package-lock.json'', ''yarn.lock'', ''pnpm-lock.yaml'', ''poetry.lock'',
      ''Pipfile.lock'', ''composer.lock'', ''.DS_Store'', ''Thumbs.db'',
      ''.env'', ''.env.local'', ''.env.production'',
      ''.gitignore'', ''.gitattributes'', ''.editorconfig'', ''.prettierrc'',
      ''.eslintrc'', ''.eslintrc.js'', ''.eslintrc.json'',
      ''jest.config.js'', ''jest.config.ts'', ''vitest.config.ts'']"

definition MAX_FILE_SIZE_BYTES :: int where
  "MAX_FILE_SIZE_BYTES = 500 * 1024"

definition MIN_FILE_SIZE_BYTES :: int where
  "MIN_FILE_SIZE_BYTES = 10"

text \<open>
  The reason of a rejection. The source renders it as a string
  (\<^verbatim>\<open>`ignored directory: ${part}`\<close>, \<^verbatim>\<open>`too large: ${(sizeBytes / 1024).toFixed(1)}KB`\<close>, ...);
  the model keeps the kind of the reason and the value interpolated into it.
\<close>

datatype reason =
    IgnoredDirectory string
  | IgnoredFilename string
  | UnsupportedExtension string
  | TooLarge int
  | TooSmall int
  | BinaryFile

text \<open>The result of \<^verbatim>\<open>shouldIndex\<close>: \<^verbatim>\<open>{ index: true } | { index: false; reason }\<close>.\<close>

datatype decision = Index | Reject reason

text \<open>\<^verbatim>\<open>file.path.split("/").pop() ?? ""\<close>\<close>

definition filenameOf :: "string \<Rightarrow> string" where
  "filenameOf p = last (split_on CHR ''/'' p)"

text \<open>\<^verbatim>\<open>filename.includes(".") ? "." + filename.split(".").pop()!.toLowerCase() : ""\<close>\<close>

definition extOf :: "string \<Rightarrow> string" where
  "extOf filename =
     (if CHR ''.'' \<in> set filename
      then ''.'' @ toLowerCase (last (split_on CHR ''.'' filename))
      else [])"

text \<open>The loop over \<^verbatim>\<open>pathParts.slice(0, -1)\<close>: the first ignored segment returns.\<close>

fun firstIgnoredPart :: "string list \<Rightarrow> string option" where
  "firstIgnoredPart [] = None"
| "firstIgnoredPart (part # parts) =
     (if part \<in> set IGNORED_PATHS then Some part else firstIgnoredPart parts)"

definition shouldIndex :: "RawFile \<Rightarrow> decision" where
  "shouldIndex file =
     (let filename = filenameOf (path file);
          ext = extOf filename;
          pathParts = split_on CHR ''/'' (path file)
      in case firstIgnoredPart (butlast pathParts) of
           Some part \<Rightarrow> Reject (IgnoredDirectory part)
         | None \<Rightarrow>
             if filename \<in> set IGNORED_FILENAMES then Reject (IgnoredFilename filename)
             else if ext \<notin> set SUPPORTED_EXTENSIONS then Reject (UnsupportedExtension ext)
             else if sizeBytes file > MAX_FILE_SIZE_BYTES then Reject (TooLarge (sizeBytes file))
             else if sizeBytes file < MIN_FILE_SIZE_BYTES then Reject (TooSmall (sizeBytes file))
             else if CHR 0x00 \<in> set (rawContent file) then Reject BinaryFile
             else Index)"

record FilterResult =
  accepted :: "RawFile list"
  rejected :: "(string \<times> reason) list"

text \<open>The loop of \<^verbatim>\<open>filterFiles\<close>, pushing to one of the two arrays.\<close>

fun filterLoop :: "RawFile list \<Rightarrow> FilterResult \<Rightarrow> FilterResult" where
  "filterLoop [] acc = acc"
| "filterLoop (file # files) acc =
     (case shouldIndex file of
        Index \<Rightarrow> filterLoop files (acc\<lparr>accepted := accepted acc @ [file]\<rparr>)
      | Reject r \<Rightarrow> filterLoop files (acc\<lparr>rejected := rejected acc @ [(path file, r)]\<rparr>))"

definition filterFiles :: "RawFile list \<Rightarrow> FilterResult" where
  "filterFiles files = filterLoop files \<lparr>accepted = [], rejected = []\<rparr>"

subsection \<open>The five rules, as the specification words them\<close>










section \<open>Chunker (astChunker.ts)\<close>

text \<open>Line numbers and indices are JavaScript numbers holding small non-negative integers:
  \<^typ>\<open>nat\<close>.\<close>

definition SLIDING_WINDOW_SIZE :: nat where "SLIDING_WINDOW_SIZE = 60"
definition SLIDING_WINDOW_OVERLAP :: nat where "SLIDING_WINDOW_OVERLAP = 15"
definition MAX_CHUNK_LINES :: nat where "MAX_CHUNK_LINES = 150"
definition MIN_CHUNK_LINES :: nat where "MIN_CHUNK_LINES = 3"

record CodeChunk =
  chunkId :: string
  repoId :: string
  filePath :: string
  language :: string
  content :: string
  startLine :: nat
  endLine :: nat
  symbolName :: "string option"
  chunkIndex :: nat

datatype strategy = Ast | SlidingWindow

record ChunkingResult =
  chunks :: "CodeChunk list"
  totalChunks :: nat
  strategy :: strategy

text \<open>\<^verbatim>\<open>xs.slice(a, b)\<close> for \<^verbatim>\<open>0 <= a\<close> and \<^verbatim>\<open>0 <= b\<close>; \<^verbatim>\<open>b\<close> past the end is the end.\<close>

definition slice :: "nat \<Rightarrow> nat \<Rightarrow> 'a list \<Rightarrow> 'a list" where
  "slice a b xs = drop a (take b xs)"

text \<open>A line number interpolated into a template string: its decimal digits.\<close>

definition digitChar :: "nat \<Rightarrow> char" where
  "digitChar d = ''0123456789'' ! d"

fun showNat :: "nat \<Rightarrow> string" where
  "showNat n = (if n < 10 then [digitChar n] else showNat (n div 10) @ [digitChar (n mod 10)])"

declare showNat.simps [simp del]

text \<open>The class \<^verbatim>\<open>[a-zA-Z0-9]\<close>.\<close>

definition isAlnum :: "char \<Rightarrow> bool" where
  "isAlnum c = (c \<in> set ''abcdefghijklmnopqrstuvwxyzABCDEFGHIJKLMNOPQRSTUVWXYZ0123456789'')"

text \<open>\<^verbatim>\<open>s.replace(/[^a-zA-Z0-9]/g, "_")\<close>\<close>

definition safe :: "string \<Rightarrow> string" where
  "safe s = map (\<lambda>c. if isAlnum c then c else CHR ''_'') s"

definition makeChunkId :: "string \<Rightarrow> string \<Rightarrow> nat \<Rightarrow> string" where
  "makeChunkId rid fpath sline =
     safe rid @ ''__'' @ safe fpath @ ''__L'' @ showNat sline"

subsection \<open>Regular expressions\<close>

text \<open>
  The constructs of the regular expressions the repository writes, and a backtracking
  matcher for them. \<^verbatim>\<open>rx_match r s c\<close> lists, in the order JavaScript tries them, the ways
  in which \<^verbatim>\<open>r\<close> matches a prefix of \<^verbatim>\<open>s\<close>: the text left and the groups captured
  (the newest first). Quantifiers are greedy; they stand on character classes only, as in
  the source. \<^verbatim>\<open>\s\<close>, \<^verbatim>\<open>\w\<close> and \<^verbatim>\<open>.\<close> are their ASCII ranges.
\<close>

datatype cclass = CSpace | CWord | CNot char | CDot

fun in_class :: "cclass \<Rightarrow> char \<Rightarrow> bool" where
  "in_class CSpace c = (c \<in> set [CHR 0x09, CHR 0x0A, CHR 0x0B, CHR 0x0C, CHR 0x0D, CHR '' ''])"
| "in_class CWord c = (isAlnum c \<or> c = CHR ''_'')"
| "in_class (CNot x) c = (c \<noteq> x)"
| "in_class CDot c = (c \<notin> set [CHR 0x0A, CHR 0x0D])"

datatype rx =
    Lit string
  | Star cclass
  | Plus cclass
  | Opt rx
  | Seq rx rx
  | Alt rx rx
  | Grp nat rx
  | Eol

type_synonym captures = "(nat \<times> string) list"

fun rx_match :: "rx \<Rightarrow> string \<Rightarrow> captures \<Rightarrow> (string \<times> captures) list" where
  "rx_match (Lit l) s c = (if take (length l) s = l then [(drop (length l) s, c)] else [])"
| "rx_match (Star k) s c =
     map (\<lambda>n. (drop n s, c)) (rev [0 ..< Suc (length (takeWhile (in_class k) s))])"
| "rx_match (Plus k) s c =
     map (\<lambda>n. (drop n s, c)) (rev [1 ..< Suc (length (takeWhile (in_class k) s))])"
| "rx_match (Opt r) s c = rx_match r s c @ [(s, c)]"
| "rx_match (Seq r1 r2) s c = concat (map (\<lambda>(s', c'). rx_match r2 s' c') (rx_match r1 s c))"
| "rx_match (Alt r1 r2) s c = rx_match r1 s c @ rx_match r2 s c"
| "rx_match (Grp n r) s c =
     map (\<lambda>(s', c'). (s', (n, take (length s - length s') s) # c')) (rx_match r s c)"
| "rx_match Eol s c = (if s = [] then [(s, c)] else [])"

text \<open>A sequence of expressions.\<close>

definition seqs :: "rx list \<Rightarrow> rx" where
  "seqs rs = foldr Seq rs (Lit [])"

text \<open>
  \<^verbatim>\<open>/^(?:export\s+)?(?:default\s+)?(?:async\s+)?(?:function\*?\s+(\w+)|class\s+(\w+)|\<close>
  \<^verbatim>\<open>(?:const|let|var)\s+(\w+)\s*=\s*(?:async\s+)?(?:\([^)]*\)|[\w]+)\s*=>)/\<close>,
  without its anchor: \<^verbatim>\<open>match_start\<close> matches at the start of the line only.
\<close>

definition TS_SYMBOL_START_RE :: rx where
  "TS_SYMBOL_START_RE =
     seqs [Opt (seqs [Lit ''export'', Plus CSpace]),
           Opt (seqs [Lit ''default'', Plus CSpace]),
           Opt (seqs [Lit ''async'', Plus CSpace]),
           Alt (seqs [Lit ''function'', Opt (Lit ''*''), Plus CSpace, Grp 1 (Plus CWord)])
          (Alt (seqs [Lit ''class'', Plus CSpace, Grp 2 (Plus CWord)])
               (seqs [Alt (Lit ''const'') (Alt (Lit ''let'') (Lit ''var'')), Plus CSpace,
                      Grp 3 (Plus CWord), Star CSpace, Lit ''='', Star CSpace,
                      Opt (seqs [Lit ''async'', Plus CSpace]),
                      Alt (seqs [Lit ''('', Star (CNot CHR '')''), Lit '')'']) (Plus CWord),
                      Star CSpace, Lit ''=>'']))]"

text \<open>\<^verbatim>\<open>line.match(re)\<close> for an expression anchored by \<^verbatim>\<open>^\<close>: the groups of the first way to match.\<close>

definition match_start :: "rx \<Rightarrow> string \<Rightarrow> captures option" where
  "match_start re s = (case rx_match re s [] of [] \<Rightarrow> None | (_, c) # _ \<Rightarrow> Some c)"

text \<open>\<^verbatim>\<open>match[1] || match[2] || match[3] || "anonymous"\<close>: the first group that took part
  in the match with a non-empty text.\<close>

definition group_text :: "captures \<Rightarrow> nat \<Rightarrow> string option" where
  "group_text c n = (case map_of c n of None \<Rightarrow> None | Some t \<Rightarrow> if t = [] then None else Some t)"

definition symbolNameOf :: "captures \<Rightarrow> string" where
  "symbolNameOf c =
     (case group_text c 1 of Some t \<Rightarrow> t | None \<Rightarrow>
      (case group_text c 2 of Some t \<Rightarrow> t | None \<Rightarrow>
       (case group_text c 3 of Some t \<Rightarrow> t | None \<Rightarrow> ''anonymous'')))"

text \<open>\<^verbatim>\<open>/^(?:async\s+)?(?:def|class)\s+(\w+)/\<close>\<close>

definition PY_SYMBOL_START_RE :: rx where
  "PY_SYMBOL_START_RE =
     seqs [Opt (seqs [Lit ''async'', Plus CSpace]),
           Alt (Lit ''def'') (Lit ''class''), Plus CSpace, Grp 1 (Plus CWord)]"

text \<open>A symbol boundary: \<^verbatim>\<open>{ startLine, symbolName }\<close>.\<close>

type_synonym SymbolBoundary = "nat \<times> string"

fun detectLoop :: "rx \<Rightarrow> string list \<Rightarrow> nat \<Rightarrow> SymbolBoundary list" where
  "detectLoop re [] i = []"
| "detectLoop re (l # ls) i =
     (case match_start re l of
        Some m \<Rightarrow> (i + 1, symbolNameOf m) # detectLoop re ls (i + 1)
      | None \<Rightarrow> detectLoop re ls (i + 1))"

definition detectSymbolBoundaries :: "string list \<Rightarrow> rx \<Rightarrow> SymbolBoundary list" where
  "detectSymbolBoundaries lines re = detectLoop re lines 0"

text \<open>
  The loop of \<^verbatim>\<open>slidingWindowChunk\<close>, from line index \<^verbatim>\<open>i\<close> with the counter
  \<^verbatim>\<open>chunkIndex\<close>; the chunks pushed, in order. A window under \<^verbatim>\<open>MIN_CHUNK_LINES\<close>
  is passed over (\<^verbatim>\<open>continue\<close>); the window that reaches the last line ends the loop
  (\<^verbatim>\<open>break\<close>).
\<close>

function slidingWindowLoop ::
  "string \<Rightarrow> string \<Rightarrow> string list \<Rightarrow> string \<Rightarrow> nat \<Rightarrow> nat \<Rightarrow> CodeChunk list" where
  "slidingWindowLoop rid fpath lines lang i idx =
     (if i < length lines then
        (let sline = i + 1;
             eline = min (i + SLIDING_WINDOW_SIZE) (length lines);
             chunkLines = slice i eline lines
         in if length chunkLines < MIN_CHUNK_LINES
            then slidingWindowLoop rid fpath lines lang
                   (i + (SLIDING_WINDOW_SIZE - SLIDING_WINDOW_OVERLAP)) idx
            else \<lparr>chunkId = makeChunkId rid fpath sline, repoId = rid, filePath = fpath,
                   language = lang, content = join ''\<newline>'' chunkLines,
                   startLine = sline, endLine = eline, symbolName = None, chunkIndex = idx\<rparr>
                 # (if eline \<ge> length lines then []
                    else slidingWindowLoop rid fpath lines lang
                           (i + (SLIDING_WINDOW_SIZE - SLIDING_WINDOW_OVERLAP)) (idx + 1)))
      else [])"
  by pat_completeness auto
termination
  by (relation "measure (\<lambda>(rid, fpath, lines, lang, i, idx). length lines - i)")
     (auto simp: SLIDING_WINDOW_SIZE_def SLIDING_WINDOW_OVERLAP_def)

declare slidingWindowLoop.simps [simp del]

definition slidingWindowChunk ::
  "string \<Rightarrow> string \<Rightarrow> string list \<Rightarrow> string \<Rightarrow> CodeChunk list" where
  "slidingWindowChunk rid fpath lines lang = slidingWindowLoop rid fpath lines lang 0 0"

text \<open>
  The loop of \<^verbatim>\<open>splitIfTooLarge\<close>, from offset \<^verbatim>\<open>i\<close> with \<^verbatim>\<open>n\<close> sub-chunks pushed
  so far (\<^verbatim>\<open>subChunks.length\<close>).
\<close>

function splitLoop ::
  "string \<Rightarrow> string \<Rightarrow> string \<Rightarrow> string list \<Rightarrow> nat \<Rightarrow> string \<Rightarrow> nat \<Rightarrow> nat \<Rightarrow> nat
     \<Rightarrow> CodeChunk list" where
  "splitLoop rid fpath lang chunkLines blockStart sname baseIndex i n =
     (if i < length chunkLines then
        (let sl = slice i (i + MAX_CHUNK_LINES) chunkLines
         in if length sl < MIN_CHUNK_LINES then []
            else (let sline = blockStart + i
                  in \<lparr>chunkId = makeChunkId rid fpath sline, repoId = rid, filePath = fpath,
                        language = lang, content = join ''\<newline>'' sl,
                        startLine = sline, endLine = sline + length sl - 1,
                        symbolName = Some (sname @ '' [part '' @ showNat (n + 1) @ '']''),
                        chunkIndex = baseIndex + n\<rparr>
                      # (if i + MAX_CHUNK_LINES \<ge> length chunkLines then []
                         else splitLoop rid fpath lang chunkLines blockStart sname baseIndex
                                (i + (MAX_CHUNK_LINES - SLIDING_WINDOW_OVERLAP)) (n + 1))))
      else [])"
  by pat_completeness auto
termination
  by (relation "measure (\<lambda>(rid, fpath, lang, chunkLines, blockStart, sname, baseIndex, i, n).
        length chunkLines - i)")
     (auto simp: MAX_CHUNK_LINES_def SLIDING_WINDOW_OVERLAP_def)

declare splitLoop.simps [simp del]

definition splitIfTooLarge ::
  "string \<Rightarrow> string \<Rightarrow> string \<Rightarrow> string list \<Rightarrow> nat \<Rightarrow> string \<Rightarrow> nat \<Rightarrow> CodeChunk list" where
  "splitIfTooLarge rid fpath lang chunkLines blockStart sname baseIndex =
     (if length chunkLines < MIN_CHUNK_LINES then []
      else if length chunkLines \<le> MAX_CHUNK_LINES then
        [\<lparr>chunkId = makeChunkId rid fpath blockStart, repoId = rid, filePath = fpath,
          language = lang, content = join ''\<newline>'' chunkLines,
          startLine = blockStart, endLine = blockStart + length chunkLines - 1,
          symbolName = Some sname, chunkIndex = baseIndex\<rparr>]
      else splitLoop rid fpath lang chunkLines blockStart sname baseIndex 0 0)"

text \<open>
  The loop of \<^verbatim>\<open>chunkTypeScript\<close> and of \<^verbatim>\<open>chunkPython\<close> (the same text but for the
  language) over the boundaries, \<^verbatim>\<open>i\<close> the index of the boundary.
\<close>

fun symbolLoop ::
  "string \<Rightarrow> string \<Rightarrow> string \<Rightarrow> string list \<Rightarrow> SymbolBoundary list \<Rightarrow> nat \<Rightarrow> CodeChunk list" where
  "symbolLoop rid fpath lang lines [] i = []"
| "symbolLoop rid fpath lang lines ((sline, sname) # bs) i =
     (let eline = (case bs of [] \<Rightarrow> length lines | (next, _) # _ \<Rightarrow> next - 1);
          chunkLines = slice (sline - 1) eline lines
      in splitIfTooLarge rid fpath lang chunkLines sline sname i
         @ symbolLoop rid fpath lang lines bs (i + 1))"

definition chunkTypeScript :: "string \<Rightarrow> string \<Rightarrow> string list \<Rightarrow> CodeChunk list" where
  "chunkTypeScript rid fpath lines =
     (let symbolBoundaries = detectSymbolBoundaries lines TS_SYMBOL_START_RE
      in if symbolBoundaries = [] then []
         else symbolLoop rid fpath ''typescript'' lines symbolBoundaries 0)"

definition chunkPython :: "string \<Rightarrow> string \<Rightarrow> string list \<Rightarrow> CodeChunk list" where
  "chunkPython rid fpath lines =
     (let symbolBoundaries = detectSymbolBoundaries lines PY_SYMBOL_START_RE
      in if symbolBoundaries = [] then []
         else symbolLoop rid fpath ''python'' lines symbolBoundaries 0)"

definition detectLanguage :: "string \<Rightarrow> string" where
  "detectLanguage ext =
     (case map_of
        [(''.ts'', ''typescript''), (''.tsx'', ''typescript''),
         (''.js'', ''javascript''), (''.jsx'', ''javascript''), (''.mjs'', ''javascript''),
         (''.py'', ''python''),
         (''.md'', ''markdown''), (''.mdx'', ''markdown''),
         (''.json'', ''json''), (''.yaml'', ''yaml''), (''.yml'', ''yaml''),
         (''.toml'', ''toml'')] ext of
        Some l \<Rightarrow> l
      | None \<Rightarrow> ''text'')"

text \<open>
  Node's \<^verbatim>\<open>path.extname\<close> (POSIX): in the last portion of the path, trailing slashes
  dropped, the text from the last dot on; empty when there is no dot, when the only dot
  is the first character, and for \<^verbatim>\<open>..\<close>.
\<close>

definition extname :: "string \<Rightarrow> string" where
  "extname p =
     (let base = last (split_on CHR ''/'' (rev (dropWhile (\<lambda>c. c = CHR ''/'') (rev p))));
          e = ''.'' @ last (split_on CHR ''.'' base)
      in if CHR ''.'' \<notin> set base \<or> length base = length e \<or> base = ''..'' then [] else e)"

definition chunkFile :: "string \<Rightarrow> string \<Rightarrow> string \<Rightarrow> ChunkingResult" where
  "chunkFile rid fpath body =
     (let ext = toLowerCase (extname fpath);
          lines = split_on CHR ''\<newline>'' body;
          first =
            (if ext = ''.ts'' \<or> ext = ''.tsx'' \<or> ext = ''.js'' \<or> ext = ''.jsx'' \<or> ext = ''.mjs''
             then (chunkTypeScript rid fpath lines, Ast)
             else if ext = ''.py'' then (chunkPython rid fpath lines, Ast)
             else (slidingWindowChunk rid fpath lines ''text'', SlidingWindow));
          final =
            (if fst first = []
             then (slidingWindowChunk rid fpath lines (detectLanguage ext), SlidingWindow)
             else first)
      in \<lparr>chunks = fst final, totalChunks = length (fst final), strategy = snd final\<rparr>)"

subsection \<open>Vocabulary of the chunker's properties\<close>

text \<open>
  What every emitted chunk has: the id made of the repository, the path and the start line,
  the repository and the path it was cut from, and at least 3 and at most 150 lines.
\<close>

definition chunk_shape :: "string \<Rightarrow> string \<Rightarrow> CodeChunk \<Rightarrow> bool" where
  "chunk_shape rid fpath c =
     (chunkId c = makeChunkId rid fpath (startLine c) \<and> repoId c = rid \<and> filePath c = fpath
      \<and> startLine c + 2 \<le> endLine c \<and> endLine c < startLine c + 150)"

text \<open>The number of lines of a chunk, \<^verbatim>\<open>endLine - startLine + 1\<close>.\<close>

definition lineCount :: "CodeChunk \<Rightarrow> int" where
  "lineCount c = int (endLine c) - int (startLine c) + 1"

definition isDigit :: "char \<Rightarrow> bool" where
  "isDigit c = (c \<in> set ''0123456789'')"

text \<open>The extensions \<^verbatim>\<open>chunkFile\<close> hands to a symbol-aware chunker.\<close>

definition symbolAwareExtensions :: "string list" where
  "symbolAwareExtensions = [''.ts'', ''.tsx'', ''.js'', ''.jsx'', ''.mjs'', ''.py'']"

section \<open>Vector store writer (vectorStoreWriter.ts)\<close>

text \<open>
  An embedded chunk. The writer hands the embedding on to the database and never
  looks into it: its type is a parameter. Timestamps are numbers.
\<close>

record 'v EmbeddedChunk =
  chunk :: CodeChunk
  embedding :: 'v
  embeddedAt :: nat

record RepoMeta =
  owner :: string
  repo :: string
  defaultBranch :: string
  sizeKB :: nat
  fileCount :: nat
  usedFallback :: bool

record WriteOptions =
  repoMeta :: RepoMeta
  commitHash :: "string option"
  embeddingModel :: string

datatype write_strategy = Skipped | FullReindex | Upsert

text \<open>The result of a write, without \<^verbatim>\<open>durationMs\<close> (a difference of two clock readings).\<close>

record WriteResult =
  resultRepoId :: string
  writeStrategy :: write_strategy
  chunksWritten :: nat
  chunksDeleted :: nat

subsection \<open>The database\<close>

text \<open>
  The two tables. A row of \<^verbatim>\<open>repo_index\<close> has the columns below and is found by its key
  \<^verbatim>\<open>repo_id\<close>. A row of \<^verbatim>\<open>code_chunks\<close> has the columns of an embedded chunk (\<^verbatim>\<open>id\<close>,
  \<^verbatim>\<open>repo_id\<close>, \<^verbatim>\<open>file_path\<close>, \<^verbatim>\<open>language\<close>, \<^verbatim>\<open>content\<close>, \<^verbatim>\<open>start_line\<close>, \<^verbatim>\<open>end_line\<close>,
  \<^verbatim>\<open>symbol_name\<close>, \<^verbatim>\<open>chunk_index\<close>, \<^verbatim>\<open>embedding\<close>, \<^verbatim>\<open>embedded_at\<close>) and is kept as one, the
  rows in the order of their insertion, \<^verbatim>\<open>id\<close> the primary key.
\<close>

record RepoIndexRow =
  commit_hash :: "string option"
  default_branch :: string
  size_kb :: nat
  file_count :: nat
  chunk_count :: nat
  embedding_model :: string
  updated_at :: nat

record 'v Store =
  repoIndex :: "string \<rightharpoonup> RepoIndexRow"
  codeChunks :: "'v EmbeddedChunk list"

text \<open>
  The errors of the database that the statements of the writer can provoke by what they
  are: a statement that refers to a parameter \<^verbatim>\<open>$n\<close> beyond the values bound to it, and an
  \<^verbatim>\<open>INSERT ... ON CONFLICT DO UPDATE\<close> that would touch one row twice.
\<close>

datatype db_error = ParameterMismatch | CardinalityViolation

datatype 'v sql_value = SqlText string | SqlInt nat | SqlNull | SqlVector 'v | SqlTime nat

definition rowId :: "'v EmbeddedChunk \<Rightarrow> string" where
  "rowId e = chunkId (chunk e)"

text \<open>\<^verbatim>\<open>db.codeChunk.deleteMany({ where: { repoId } })\<close>: the table left and the number deleted.\<close>

definition deleteMany :: "string \<Rightarrow> 'v Store \<Rightarrow> 'v Store \<times> nat" where
  "deleteMany rid st =
     (st\<lparr>codeChunks := filter (\<lambda>e. repoId (chunk e) \<noteq> rid) (codeChunks st)\<rparr>,
      length (filter (\<lambda>e. repoId (chunk e) = rid) (codeChunks st)))"

text \<open>A placeholder \<^verbatim>\<open>$k\<close> stands for the \<^verbatim>\<open>k\<close>-th value bound, counted from 1.\<close>

definition bindPlaceholder :: "'v sql_value list \<Rightarrow> nat \<Rightarrow> 'v sql_value option" where
  "bindPlaceholder params k = (if 1 \<le> k \<and> k \<le> length params then Some (params ! (k - 1)) else None)"

fun bindAll :: "'v sql_value list \<Rightarrow> nat list \<Rightarrow> 'v sql_value list option" where
  "bindAll params [] = Some []"
| "bindAll params (k # ks) =
     (case bindPlaceholder params k of
        None \<Rightarrow> None
      | Some v \<Rightarrow> (case bindAll params ks of None \<Rightarrow> None | Some vs \<Rightarrow> Some (v # vs)))"

text \<open>The row that eleven bound values make, in the order of the column list of the statement.\<close>

definition rowOfValues :: "'v sql_value list \<Rightarrow> 'v EmbeddedChunk option" where
  "rowOfValues vs =
     (case vs of
        [SqlText i, SqlText r, SqlText f, SqlText l, SqlText c, SqlInt s, SqlInt e, sn,
         SqlInt ci, SqlVector v, SqlTime t] \<Rightarrow>
          (case sn of
             SqlNull \<Rightarrow>
               Some \<lparr>chunk = \<lparr>chunkId = i, repoId = r, filePath = f, language = l, content = c,
                      startLine = s, endLine = e, symbolName = None, chunkIndex = ci\<rparr>,
                     embedding = v, embeddedAt = t\<rparr>
           | SqlText n \<Rightarrow>
               Some \<lparr>chunk = \<lparr>chunkId = i, repoId = r, filePath = f, language = l, content = c,
                      startLine = s, endLine = e, symbolName = Some n, chunkIndex = ci\<rparr>,
                     embedding = v, embeddedAt = t\<rparr>
           | _ \<Rightarrow> None)
      | _ \<Rightarrow> None)"

fun bindRows :: "'v sql_value list \<Rightarrow> nat list list \<Rightarrow> 'v EmbeddedChunk list option" where
  "bindRows params [] = Some []"
| "bindRows params (ks # kss) =
     (case bindAll params ks of
        None \<Rightarrow> None
      | Some vs \<Rightarrow>
          (case rowOfValues vs of
             None \<Rightarrow> None
           | Some r \<Rightarrow> (case bindRows params kss of None \<Rightarrow> None | Some rs \<Rightarrow> Some (r # rs))))"

text \<open>
  \<^verbatim>\<open>ON CONFLICT (id) DO UPDATE SET content = EXCLUDED.content, embedding = EXCLUDED.embedding,\<close>
  \<^verbatim>\<open>embedded_at = EXCLUDED.embedded_at\<close>, on the row in conflict.
\<close>

definition conflictUpdate :: "'v EmbeddedChunk \<Rightarrow> 'v EmbeddedChunk \<Rightarrow> 'v EmbeddedChunk" where
  "conflictUpdate new old =
     (if rowId old = rowId new
      then old\<lparr>chunk := (chunk old)\<lparr>content := content (chunk new)\<rparr>,
               embedding := embedding new, embeddedAt := embeddedAt new\<rparr>
      else old)"

text \<open>
  The rows of one \<^verbatim>\<open>INSERT\<close>, one after the other, \<^verbatim>\<open>touched\<close> the ids the statement has
  inserted or updated so far. A row whose id is in the table is skipped under
  \<^verbatim>\<open>DO NOTHING\<close> and updates the row in the table under \<^verbatim>\<open>DO UPDATE\<close>, which fails when
  the statement has touched that row before.
\<close>

fun insertRows ::
  "bool \<Rightarrow> 'v EmbeddedChunk list \<Rightarrow> string list \<Rightarrow> 'v EmbeddedChunk list
     \<Rightarrow> db_error + 'v EmbeddedChunk list" where
  "insertRows upsert [] touched table = Inr table"
| "insertRows upsert (r # rs) touched table =
     (if rowId r \<in> set (map rowId table) then
        (if upsert then
           (if rowId r \<in> set touched then Inl CardinalityViolation
            else insertRows upsert rs (rowId r # touched) (map (conflictUpdate r) table))
         else insertRows upsert rs touched table)
      else insertRows upsert rs (rowId r # touched) (table @ [r]))"

text \<open>
  \<^verbatim>\<open>db.$executeRawUnsafe(`INSERT INTO code_chunks (...) VALUES ${values.join(", ")}\<close>
  \<^verbatim>\<open>${conflictClause}`, ...params)\<close>: \<^verbatim>\<open>values\<close> the placeholders of each row. The statement
  is atomic: when it fails the table is as before.
\<close>

definition executeRawUnsafe ::
  "nat list list \<Rightarrow> bool \<Rightarrow> 'v sql_value list \<Rightarrow> 'v Store \<Rightarrow> 'v Store \<times> (db_error + unit)" where
  "executeRawUnsafe vals upsert params st =
     (case bindRows params vals of
        None \<Rightarrow> (st, Inl ParameterMismatch)
      | Some rows \<Rightarrow>
          (case insertRows upsert rows [] (codeChunks st) of
             Inl err \<Rightarrow> (st, Inl err)
           | Inr table \<Rightarrow> (st\<lparr>codeChunks := table\<rparr>, Inr ())))"

subsection \<open>The writer\<close>

definition INSERT_BATCH_SIZE :: nat where
  "INSERT_BATCH_SIZE = 50"

text \<open>
  \<^verbatim>\<open>batch.map((e, idx) => { const base = i + idx; return `($${base * 11 + 1}, ...,\<close>
  \<^verbatim>\<open>$${base * 11 + 11})`; })\<close>: the placeholders of the rows of the batch that starts at \<^verbatim>\<open>i\<close>.
\<close>

definition valuesClause :: "nat \<Rightarrow> nat \<Rightarrow> nat list list" where
  "valuesClause i n = map (\<lambda>idx. map (\<lambda>k. (i + idx) * 11 + k) [1 ..< 12]) [0 ..< n]"

text \<open>The eleven values \<^verbatim>\<open>batch.flatMap\<close> lists for a chunk.\<close>

definition chunkParams :: "'v EmbeddedChunk \<Rightarrow> 'v sql_value list" where
  "chunkParams e =
     [SqlText (chunkId (chunk e)), SqlText (repoId (chunk e)), SqlText (filePath (chunk e)),
      SqlText (language (chunk e)), SqlText (content (chunk e)),
      SqlInt (startLine (chunk e)), SqlInt (endLine (chunk e)),
      (case symbolName (chunk e) of None \<Rightarrow> SqlNull | Some n \<Rightarrow> SqlText n),
      SqlInt (chunkIndex (chunk e)), SqlVector (embedding e), SqlTime (embeddedAt e)]"

text \<open>
  The loop of \<^verbatim>\<open>batchInsertChunks\<close> from index \<^verbatim>\<open>i\<close> with \<^verbatim>\<open>totalInserted\<close>; an error of a
  statement leaves the loop with the store as the statements before it left it.
\<close>

function batchLoop ::
  "bool \<Rightarrow> 'v EmbeddedChunk list \<Rightarrow> nat \<Rightarrow> nat \<Rightarrow> 'v Store \<Rightarrow> 'v Store \<times> (db_error + nat)" where
  "batchLoop upsert embedded i totalInserted st =
     (if i < length embedded then
        (let batch = slice i (i + INSERT_BATCH_SIZE) embedded;
             vals = valuesClause i (length batch);
             params = concat (map chunkParams batch)
         in case executeRawUnsafe vals upsert params st of
              (st', Inl err) \<Rightarrow> (st', Inl err)
            | (st', Inr _) \<Rightarrow>
                batchLoop upsert embedded (i + INSERT_BATCH_SIZE) (totalInserted + length batch) st')
      else (st, Inr totalInserted))"
  by pat_completeness auto
termination
  by (relation "measure (\<lambda>(upsert, embedded, i, totalInserted, st). length embedded - i)")
     (auto simp: INSERT_BATCH_SIZE_def)

declare batchLoop.simps [simp del]

definition batchInsertChunks ::
  "'v EmbeddedChunk list \<Rightarrow> bool \<Rightarrow> 'v Store \<Rightarrow> 'v Store \<times> (db_error + nat)" where
  "batchInsertChunks embedded upsert st = batchLoop upsert embedded 0 0 st"

text \<open>
  \<^verbatim>\<open>fullReindex\<close>; \<^verbatim>\<open>now\<close> is the clock at the upsert of the \<^verbatim>\<open>repo_index\<close> row, which the
  update branch writes to \<^verbatim>\<open>updatedAt\<close> and the column's default writes on creation.
\<close>

definition fullReindex ::
  "string \<Rightarrow> 'v EmbeddedChunk list \<Rightarrow> WriteOptions \<Rightarrow> nat \<Rightarrow> 'v Store
     \<Rightarrow> 'v Store \<times> (db_error + WriteResult)" where
  "fullReindex rid embedded options now st =
     (let (st1, deleted) =
            (case repoIndex st rid of
               Some existing \<Rightarrow> deleteMany rid st
             | None \<Rightarrow> (st, 0))
      in case batchInsertChunks embedded False st1 of
           (st2, Inl err) \<Rightarrow> (st2, Inl err)
         | (st2, Inr written) \<Rightarrow>
             (let row =
                    (case repoIndex st2 rid of
                       None \<Rightarrow>
                         \<lparr>commit_hash = commitHash options,
                          default_branch = defaultBranch (repoMeta options),
                          size_kb = sizeKB (repoMeta options),
                          file_count = fileCount (repoMeta options),
                          chunk_count = written,
                          embedding_model = embeddingModel options,
                          updated_at = now\<rparr>
                     | Some old \<Rightarrow>
                         old\<lparr>commit_hash := commitHash options,
                             size_kb := sizeKB (repoMeta options),
                             file_count := fileCount (repoMeta options),
                             chunk_count := written,
                             embedding_model := embeddingModel options,
                             updated_at := now\<rparr>)
              in (st2\<lparr>repoIndex := (repoIndex st2)(rid \<mapsto> row)\<rparr>,
                  Inr \<lparr>resultRepoId = rid, writeStrategy = FullReindex,
                       chunksWritten = written, chunksDeleted = deleted\<rparr>)))"

definition upsertChunks ::
  "string \<Rightarrow> 'v EmbeddedChunk list \<Rightarrow> WriteOptions \<Rightarrow> nat \<Rightarrow> 'v Store
     \<Rightarrow> 'v Store \<times> (db_error + WriteResult)" where
  "upsertChunks rid embedded options now st =
     (case batchInsertChunks embedded True st of
        (st2, Inl err) \<Rightarrow> (st2, Inl err)
      | (st2, Inr written) \<Rightarrow>
          (let row =
                 (case repoIndex st2 rid of
                    None \<Rightarrow>
                      \<lparr>commit_hash = None,
                       default_branch = defaultBranch (repoMeta options),
                       size_kb = sizeKB (repoMeta options),
                       file_count = fileCount (repoMeta options),
                       chunk_count = written,
                       embedding_model = embeddingModel options,
                       updated_at = now\<rparr>
                  | Some old \<Rightarrow>
                      old\<lparr>chunk_count := written,
                          embedding_model := embeddingModel options,
                          updated_at := now\<rparr>)
           in (st2\<lparr>repoIndex := (repoIndex st2)(rid \<mapsto> row)\<rparr>,
               Inr \<lparr>resultRepoId = rid, writeStrategy = Upsert,
                    chunksWritten = written, chunksDeleted = 0\<rparr>)))"

text \<open>
  \<^verbatim>\<open>if (options.commitHash)\<close>: an absent hash and the empty string are both falsy.
\<close>

definition presentHash :: "string option \<Rightarrow> string option" where
  "presentHash h = (case h of None \<Rightarrow> None | Some s \<Rightarrow> if s = [] then None else Some s)"

definition writeToVectorStore ::
  "'v EmbeddedChunk list \<Rightarrow> WriteOptions \<Rightarrow> nat \<Rightarrow> 'v Store
     \<Rightarrow> 'v Store \<times> (db_error + WriteResult)" where
  "writeToVectorStore embedded options now st =
     (let rid = owner (repoMeta options) @ ''/'' @ repo (repoMeta options)
      in case presentHash (commitHash options) of
           Some h \<Rightarrow>
             (if (case repoIndex st rid of
                    None \<Rightarrow> False
                  | Some existing \<Rightarrow> commit_hash existing = Some h)
              then (st, Inr \<lparr>resultRepoId = rid, writeStrategy = Skipped,
                            chunksWritten = 0, chunksDeleted = 0\<rparr>)
              else fullReindex rid embedded options now st)
         | None \<Rightarrow> upsertChunks rid embedded options now st)"

subsection \<open>Sample inputs of the writer\<close>

text \<open>A chunk of the file \<^verbatim>\<open>notes.md\<close> of the repository \<^verbatim>\<open>o/r\<close>, the \<^verbatim>\<open>n\<close>-th sliding window,
  with a given content.\<close>

definition sampleChunk :: "nat \<Rightarrow> string \<Rightarrow> unit EmbeddedChunk" where
  "sampleChunk n body =
     \<lparr>chunk = \<lparr>chunkId = makeChunkId ''o/r'' ''notes.md'' (n * 45 + 1), repoId = ''o/r'',
               filePath = ''notes.md'', language = ''text'', content = body,
               startLine = n * 45 + 1, endLine = n * 45 + 60, symbolName = None,
               chunkIndex = n\<rparr>,
      embedding = (), embeddedAt = 0\<rparr>"

definition sampleOptions :: "string option \<Rightarrow> WriteOptions" where
  "sampleOptions h =
     \<lparr>repoMeta = \<lparr>owner = ''o'', repo = ''r'', defaultBranch = ''main'', sizeKB = 12,
                  fileCount = 1, usedFallback = False\<rparr>,
      commitHash = h, embeddingModel = ''text-embedding-004''\<rparr>"

definition emptyStore :: "unit Store" where
  "emptyStore = \<lparr>repoIndex = Map.empty, codeChunks = []\<rparr>"

section \<open>URL parser (githubFetcher.ts)\<close>

text \<open>
  The first match of an expression that is not anchored: the leftmost position at which
  it matches, and there the first way to match; the text before the match, the text after
  it and the groups.
\<close>

fun rx_search :: "rx \<Rightarrow> string \<Rightarrow> (string \<times> string \<times> captures) option" where
  "rx_search re [] =
     (case rx_match re [] [] of
        [] \<Rightarrow> None
      | (rest, c) # _ \<Rightarrow> Some ([], rest, c))"
| "rx_search re (x # xs) =
     (case rx_match re (x # xs) [] of
        [] \<Rightarrow>
          (case rx_search re xs of
             None \<Rightarrow> None
           | Some (pre, rest, c) \<Rightarrow> Some (x # pre, rest, c))
      | (rest, c) # _ \<Rightarrow> Some ([], rest, c))"

text \<open>\<^verbatim>\<open>s.replace(re, "")\<close> for an expression without the \<^verbatim>\<open>g\<close> flag: the first match is cut out.\<close>

definition js_remove_first :: "rx \<Rightarrow> string \<Rightarrow> string" where
  "js_remove_first re s =
     (case rx_search re s of
        None \<Rightarrow> s
      | Some (pre, rest, _) \<Rightarrow> pre @ rest)"

text \<open>\<^verbatim>\<open>/\.git$/\<close>\<close>

definition GIT_SUFFIX_RE :: rx where
  "GIT_SUFFIX_RE = seqs [Lit ''.git'', Eol]"

text \<open>\<^verbatim>\<open>/\/tree\/.*$/\<close>\<close>

definition TREE_SUFFIX_RE :: rx where
  "TREE_SUFFIX_RE = seqs [Lit ''/tree/'', Star CDot, Eol]"

text \<open>\<^verbatim>\<open>/github\.com\/([^/]+)\/([^/]+)/\<close>\<close>

definition GITHUB_REPO_RE :: rx where
  "GITHUB_REPO_RE =
     seqs [Lit ''github.com/'', Grp 1 (Plus (CNot CHR ''/'')), Lit ''/'',
           Grp 2 (Plus (CNot CHR ''/''))]"

datatype url_error = InvalidGitHubUrl string

text \<open>The text of a group of a match, for a group that took part in it.\<close>

definition group :: "captures \<Rightarrow> nat \<Rightarrow> string" where
  "group c n = (case map_of c n of None \<Rightarrow> [] | Some t \<Rightarrow> t)"

text \<open>\<^verbatim>\<open>parseGitHubUrl\<close>: the pair \<^verbatim>\<open>(owner, repo)\<close>, or the error thrown.\<close>

definition parseGitHubUrl :: "string \<Rightarrow> url_error + string \<times> string" where
  "parseGitHubUrl url =
     (let cleaned = js_remove_first TREE_SUFFIX_RE (js_remove_first GIT_SUFFIX_RE url)
      in case rx_search GITHUB_REPO_RE cleaned of
           None \<Rightarrow> Inl (InvalidGitHubUrl url)
         | Some (_, _, m) \<Rightarrow> Inr (group m 1, group m 2))"

subsection \<open>Names on GitHub\<close>

text \<open>
  The specification speaks of valid owners and repository names and does not say which
  these are. GitHub's rules: an owner is 1 to 39 alphanumeric characters or single hyphens,
  not starting and not ending with a hyphen; a repository name is 1 to 100 characters out
  of the alphanumeric ones, \<^verbatim>\<open>-\<close>, \<^verbatim>\<open>_\<close> and \<^verbatim>\<open>.\<close>, is not \<^verbatim>\<open>.\<close> or \<^verbatim>\<open>..\<close>, and does not end
  in \<^verbatim>\<open>.git\<close>.
\<close>

fun singleHyphens :: "string \<Rightarrow> bool" where
  "singleHyphens (a # b # cs) = (\<not> (a = CHR ''-'' \<and> b = CHR ''-'') \<and> singleHyphens (b # cs))"
| "singleHyphens _ = True"

definition validOwner :: "string \<Rightarrow> bool" where
  "validOwner o' =
     (o' \<noteq> [] \<and> length o' \<le> 39 \<and> list_all (\<lambda>c. isAlnum c \<or> c = CHR ''-'') o'
      \<and> hd o' \<noteq> CHR ''-'' \<and> last o' \<noteq> CHR ''-'' \<and> singleHyphens o')"

definition endsWith :: "string \<Rightarrow> string \<Rightarrow> bool" where
  "endsWith suf s = (length suf \<le> length s \<and> drop (length s - length suf) s = suf)"

definition validRepo :: "string \<Rightarrow> bool" where
  "validRepo r =
     (r \<noteq> [] \<and> length r \<le> 100
      \<and> list_all (\<lambda>c. isAlnum c \<or> c = CHR ''-'' \<or> c = CHR ''_'' \<or> c = CHR ''.'') r
      \<and> r \<noteq> ''.'' \<and> r \<noteq> ''..'' \<and> \<not> endsWith ''.git'' r)"

text \<open>A text that holds the form \<^verbatim>\<open>github.com/<owner>/<repo>\<close>.\<close>

definition hasRepoForm :: "string \<Rightarrow> bool" where
  "hasRepoForm url =
     (\<exists>pre o' r post. url = pre @ ''github.com/'' @ o' @ ''/'' @ r @ post
        \<and> o' \<noteq> [] \<and> CHR ''/'' \<notin> set o' \<and> r \<noteq> [] \<and> CHR ''/'' \<notin> set r)"

subsection \<open>Vocabulary of the parser's properties\<close>

text \<open>
  The first way in which an expression matches at the start of a text, and a search result
  moved behind a prefix that was passed over.
\<close>

definition first_match :: "rx \<Rightarrow> string \<Rightarrow> captures \<Rightarrow> (string \<times> captures) option" where
  "first_match r s c = (case rx_match r s c of [] \<Rightarrow> None | x # _ \<Rightarrow> Some x)"

definition prepend :: "string \<Rightarrow> (string \<times> string \<times> captures) option
    \<Rightarrow> (string \<times> string \<times> captures) option" where
  "prepend w m = (case m of None \<Rightarrow> None | Some (pre, rest, c) \<Rightarrow> Some (w @ pre, rest, c))"

text \<open>A text without a line terminator, as the \<^verbatim>\<open>.\<close> of an expression needs it.\<close>

definition noLineBreak :: "string \<Rightarrow> bool" where
  "noLineBreak s = list_all (in_class CDot) s"

section \<open>Ingestion pipeline (ingestionPipeline.ts) and index job (indexRepoJob.ts)\<close>

text \<open>\<^verbatim>\<open>chunkFiles\<close>: the chunks of every file, in the order of the files.\<close>

definition chunkFiles :: "string \<Rightarrow> RawFile list \<Rightarrow> CodeChunk list" where
  "chunkFiles rid fs = concat (map (\<lambda>f. chunks (chunkFile rid (path f) (rawContent f))) fs)"

record FetchResult =
  files :: "RawFile list"
  meta :: RepoMeta

record IngestionInput =
  inputUrl :: string
  inputToken :: "string option"

record IngestionStats =
  totalFilesFound :: nat
  filesAccepted :: nat
  filesRejected :: nat
  statsTotalChunks :: nat
  usedCloneFallback :: bool

record IngestionOutput =
  outRepoId :: string
  outChunks :: "CodeChunk list"
  stats :: IngestionStats

text \<open>
  What the job calls outside the repository's pure code, as functions of their arguments:
  the fetch of a repository (GitHub's API or a clone), the metadata request
  \<^verbatim>\<open>octokit.repos.get\<close> (default branch and size), \<^verbatim>\<open>fetchLatestCommitHash\<close>, which catches
  every failure and returns \<^verbatim>\<open>null\<close>, and \<^verbatim>\<open>embedChunks\<close> (embedded chunks and the model's
  name). A failure carries its message.
\<close>

record 'v Collaborators =
  fetchRepository :: "string \<Rightarrow> string option \<Rightarrow> string + FetchResult"
  reposGet :: "string \<Rightarrow> string \<Rightarrow> string option \<Rightarrow> string + string \<times> nat"
  fetchLatestCommitHash :: "string \<Rightarrow> string \<Rightarrow> string \<Rightarrow> string option \<Rightarrow> string option"
  embedChunks :: "CodeChunk list \<Rightarrow> string + 'v EmbeddedChunk list \<times> string"

datatype job_error =
    UrlError url_error
  | FetchError string
  | ApiError string
  | EmbeddingError string
  | StoreError db_error

definition runIngestionPipeline ::
  "'v Collaborators \<Rightarrow> IngestionInput \<Rightarrow> job_error + IngestionOutput" where
  "runIngestionPipeline cs input =
     (case fetchRepository cs (inputUrl input) (inputToken input) of
        Inl msg \<Rightarrow> Inl (FetchError msg)
      | Inr fetchResult \<Rightarrow>
          (let rid = owner (meta fetchResult) @ ''/'' @ repo (meta fetchResult);
               filterResult = filterFiles (files fetchResult);
               cks = chunkFiles rid (accepted filterResult)
           in Inr \<lparr>outRepoId = rid, outChunks = cks,
                   stats = \<lparr>totalFilesFound = length (files fetchResult),
                            filesAccepted = length (accepted filterResult),
                            filesRejected = length (rejected filterResult),
                            statsTotalChunks = length cks,
                            usedCloneFallback = usedFallback (meta fetchResult)\<rparr>\<rparr>))"

record IndexRepoJobData =
  githubUrl :: string
  githubToken :: "string option"
  requestedBy :: "string option"

text \<open>The result of the job, without \<^verbatim>\<open>totalDurationMs\<close>.\<close>

record IndexRepoJobResult =
  jobRepoId :: string
  jobStrategy :: write_strategy
  jobChunksWritten :: nat

text \<open>
  What the job does to the world, in order: the progress it reports and the phases it
  runs.
\<close>

datatype job_event =
    Progress nat
  | MetadataRequested
  | CommitHashRequested
  | IngestionRun
  | EmbeddingRun
  | VectorStoreWriteRun

record 'v World =
  store :: "'v Store"
  events :: "job_event list"

definition emit :: "job_event \<Rightarrow> 'v World \<Rightarrow> 'v World" where
  "emit e w = w\<lparr>events := events w @ [e]\<rparr>"

text \<open>
  \<^verbatim>\<open>processIndexRepoJob\<close>. An exception of a phase ends the job with that failure; \<^verbatim>\<open>now\<close>
  is the clock at the write.
\<close>

definition processIndexRepoJob ::
  "'v Collaborators \<Rightarrow> IndexRepoJobData \<Rightarrow> nat \<Rightarrow> 'v World
     \<Rightarrow> 'v World \<times> (job_error + IndexRepoJobResult)" where
  "processIndexRepoJob cs job now w0 =
     (let w1 = emit (Progress 5) w0
      in case parseGitHubUrl (githubUrl job) of
           Inl err \<Rightarrow> (w1, Inl (UrlError err))
         | Inr (own, rep) \<Rightarrow>
             (let w2 = emit MetadataRequested w1
              in case reposGet cs own rep (githubToken job) of
                   Inl msg \<Rightarrow> (w2, Inl (ApiError msg))
                 | Inr (branch, repoSize) \<Rightarrow>
                     (let hash = fetchLatestCommitHash cs own rep branch (githubToken job);
                          w3 = emit IngestionRun (emit (Progress 10) (emit CommitHashRequested w2))
                      in case runIngestionPipeline cs
                                \<lparr>inputUrl = githubUrl job, inputToken = githubToken job\<rparr> of
                           Inl err \<Rightarrow> (w3, Inl err)
                         | Inr ingestionResult \<Rightarrow>
                             (let w4 = emit (Progress 40) w3
                              in if outChunks ingestionResult = []
                                 then (w4, Inr \<lparr>jobRepoId = outRepoId ingestionResult,
                                               jobStrategy = Skipped, jobChunksWritten = 0\<rparr>)
                                 else
                                   (let w5 = emit EmbeddingRun w4
                                    in case embedChunks cs (outChunks ingestionResult) of
                                         Inl msg \<Rightarrow> (w5, Inl (EmbeddingError msg))
                                       | Inr (embedded, model) \<Rightarrow>
                                           (let w6 = emit VectorStoreWriteRun (emit (Progress 80) w5)
                                            in case writeToVectorStore embedded
                                                      \<lparr>repoMeta =
                                                         \<lparr>owner = own, repo = rep,
                                                          defaultBranch = branch, sizeKB = repoSize,
                                                          fileCount =
                                                            filesAccepted (stats ingestionResult),
                                                          usedFallback =
                                                            usedCloneFallback (stats ingestionResult)\<rparr>,
                                                       commitHash = hash,
                                                       embeddingModel = model\<rparr>
                                                      now (store w6) of
                                                 (st, Inl err) \<Rightarrow>
                                                   (w6\<lparr>store := st\<rparr>, Inl (StoreError err))
                                               | (st, Inr writeResult) \<Rightarrow>
                                                   (emit (Progress 100) (w6\<lparr>store := st\<rparr>),
                                                    Inr \<lparr>jobRepoId = outRepoId ingestionResult,
                                                         jobStrategy = writeStrategy writeResult,
                                                         jobChunksWritten =
                                                           chunksWritten writeResult\<rparr>)))))))"

subsection \<open>Sample inputs of the job\<close>

text \<open>
  Collaborators for a repository whose only file is a one-line README, from which the
  chunker makes no chunk.
\<close>

definition sampleCollaborators :: "unit Collaborators" where
  "sampleCollaborators =
     \<lparr>fetchRepository = (\<lambda>url token.
          Inr \<lparr>files = [\<lparr>path = ''README.md'', rawContent = ''# Hello World'', sizeBytes = 13\<rparr>],
               meta = \<lparr>owner = ''octocat'', repo = ''Hello-World'', defaultBranch = ''master'',
                       sizeKB = 1, fileCount = 1, usedFallback = False\<rparr>\<rparr>),
      reposGet = (\<lambda>own rep token. Inr (''master'', 1)),
      fetchLatestCommitHash = (\<lambda>own rep branch token.
          Some ''7fd1a60b01f91b314f59955a4e4d4e80d8edf11d''),
      embedChunks = (\<lambda>cks. Inr (map (\<lambda>c. \<lparr>chunk = c, embedding = (), embeddedAt = 0\<rparr>) cks,
                               ''text-embedding-004''))\<rparr>"

definition sampleJob :: IndexRepoJobData where
  "sampleJob =
     \<lparr>githubUrl = ''https://github.com/octocat/Hello-World'', githubToken = None,
      requestedBy = None\<rparr>"

section \<open>Context assembler (contextAssembler.ts)\<close>

text \<open>
  A retrieved chunk, without its score, which the assembler does not read. Line numbers
  come from integer columns of the database.
\<close>

record RetrievedChunk =
  rFilePath :: string
  rStartLine :: int
  rEndLine :: int
  rSymbolName :: "string option"
  rContent :: string
  rLanguage :: string

record Citation =
  citFilePath :: string
  citStartLine :: int
  citEndLine :: int
  citSymbolName :: "string option"

type_synonym CitationMap = "string \<rightharpoonup> Citation"

record AssembledContext =
  systemPrompt :: string
  userPrompt :: string
  citationMap :: CitationMap
  tokenEstimate :: nat

definition MAX_CONTEXT_CHARS :: nat where
  "MAX_CONTEXT_CHARS = 12000"

text \<open>An integer interpolated into a template string.\<close>

definition showInt :: "int \<Rightarrow> string" where
  "showInt i = (if i < 0 then ''-'' @ showNat (nat (- i)) else showNat (nat i))"

text \<open>
  The en dash and the em dash of the prompts are one code unit each in JavaScript; here
  they are the characters 0x96 and 0x97.
\<close>

definition enDash :: string where
  "enDash = [CHR 0x96]"

definition emDash :: string where
  "emDash = [CHR 0x97]"

text \<open>\<^verbatim>\<open>`[${citationIndex}]`\<close>\<close>

definition citationKey :: "nat \<Rightarrow> string" where
  "citationKey n = ''['' @ showNat n @ '']''"

text \<open>The name of a chunk when it is truthy: present and not empty.\<close>

definition truthyName :: "string option \<Rightarrow> string option" where
  "truthyName n = (case n of None \<Rightarrow> None | Some s \<Rightarrow> if s = [] then None else Some s)"

definition chunkHeader :: "string \<Rightarrow> RetrievedChunk \<Rightarrow> string" where
  "chunkHeader key c =
     (case truthyName (rSymbolName c) of
        Some name \<Rightarrow>
          key @ '' `'' @ name @ ''` (lines '' @ showInt (rStartLine c) @ enDash
            @ showInt (rEndLine c) @ '')''
      | None \<Rightarrow> key @ '' lines '' @ showInt (rStartLine c) @ enDash @ showInt (rEndLine c))"

definition chunkBlock :: "string \<Rightarrow> RetrievedChunk \<Rightarrow> string" where
  "chunkBlock key c =
     chunkHeader key c @ ''\<newline>```'' @ rLanguage c @ ''\<newline>'' @ rContent c @ ''\<newline>```''"

definition fileHeader :: "string \<Rightarrow> string" where
  "fileHeader fp = ''### File: `'' @ fp @ ''`''"

definition citationOf :: "RetrievedChunk \<Rightarrow> Citation" where
  "citationOf c =
     \<lparr>citFilePath = rFilePath c, citStartLine = rStartLine c, citEndLine = rEndLine c,
      citSymbolName = rSymbolName c\<rparr>"

subsection \<open>Grouping by file\<close>

text \<open>
  \<^verbatim>\<open>grouped\<close> is a plain object. Reading a key that is a property of \<^verbatim>\<open>Object.prototype\<close>
  gives that property, which is truthy and has no \<^verbatim>\<open>push\<close>: for a chunk with such a path
  \<^verbatim>\<open>grouped[chunk.filePath].push(chunk)\<close> throws a TypeError.
\<close>

definition objectPrototypeKeys :: "string list" where
  "objectPrototypeKeys =
     [''constructor'', ''__defineGetter__'', ''__defineSetter__'', ''hasOwnProperty'',
      ''__lookupGetter__'', ''__lookupSetter__'', ''isPrototypeOf'', ''propertyIsEnumerable'',
      ''toString'', ''valueOf'', ''__proto__'', ''toLocaleString'']"

datatype assemble_error = TypeError string

text \<open>The object as the list of its own properties, in the order of their creation.\<close>

type_synonym Grouped = "(string \<times> RetrievedChunk list) list"

definition pushChunk :: "RetrievedChunk \<Rightarrow> Grouped \<Rightarrow> Grouped" where
  "pushChunk c g =
     (if rFilePath c \<in> set (map fst g)
      then map (\<lambda>(k, v). if k = rFilePath c then (k, v @ [c]) else (k, v)) g
      else g @ [(rFilePath c, [c])])"

fun groupLoop :: "RetrievedChunk list \<Rightarrow> Grouped \<Rightarrow> assemble_error + Grouped" where
  "groupLoop [] g = Inr g"
| "groupLoop (c # cs) g =
     (if rFilePath c \<in> set objectPrototypeKeys
      then Inl (TypeError ''grouped[chunk.filePath].push is not a function'')
      else groupLoop cs (pushChunk c g))"

text \<open>
  The order in which \<^verbatim>\<open>Object.entries\<close> lists the properties: the keys that are array
  indices (canonical decimal numbers up to \<^verbatim>\<open>2^32 - 2\<close>) first, in ascending order, then
  the other keys in the order of their creation.
\<close>

definition parseNat :: "string \<Rightarrow> nat" where
  "parseNat s = foldl (\<lambda>n c. 10 * n + (of_char c - 48)) 0 s"

definition isArrayIndex :: "string \<Rightarrow> bool" where
  "isArrayIndex s =
     (s \<noteq> [] \<and> list_all isDigit s \<and> (length s = 1 \<or> hd s \<noteq> CHR ''0'')
      \<and> parseNat s \<le> 4294967294)"

definition objectEntries :: "Grouped \<Rightarrow> Grouped" where
  "objectEntries g =
     sort_key (\<lambda>(k, v). parseNat k) (filter (\<lambda>(k, v). isArrayIndex k) g)
     @ filter (\<lambda>(k, v). \<not> isArrayIndex k) g"

text \<open>
  \<^verbatim>\<open>groupByFile\<close>, as the entries the caller iterates over; the sort of a group by
  \<^verbatim>\<open>startLine\<close> is stable.
\<close>

definition groupByFile :: "RetrievedChunk list \<Rightarrow> assemble_error + Grouped" where
  "groupByFile cs =
     (case groupLoop cs [] of
        Inl err \<Rightarrow> Inl err
      | Inr g \<Rightarrow> Inr (objectEntries (map (\<lambda>(k, v). (k, sort_key rStartLine v)) g)))"

subsection \<open>Assembling\<close>

record AssemblerState =
  contextBlocks :: "string list"
  citations :: CitationMap
  citationIndex :: nat
  totalChars :: nat

text \<open>
  The loop over the chunks of a file, \<^verbatim>\<open>fb\<close> the file's block so far; it ends at the first
  chunk met with \<^verbatim>\<open>totalChars > MAX_CONTEXT_CHARS\<close>.
\<close>

fun chunkLoop :: "RetrievedChunk list \<Rightarrow> string list \<Rightarrow> AssemblerState
    \<Rightarrow> string list \<times> AssemblerState" where
  "chunkLoop [] fb st = (fb, st)"
| "chunkLoop (c # cs) fb st =
     (if totalChars st > MAX_CONTEXT_CHARS then (fb, st)
      else (let key = citationKey (citationIndex st);
                block = chunkBlock key c
            in chunkLoop cs (fb @ [block])
                 (st\<lparr>citations := (citations st)(key \<mapsto> citationOf c),
                     totalChars := totalChars st + length block,
                     citationIndex := citationIndex st + 1\<rparr>)))"

text \<open>The loop over the files.\<close>

fun fileLoop :: "Grouped \<Rightarrow> AssemblerState \<Rightarrow> AssemblerState" where
  "fileLoop [] st = st"
| "fileLoop ((fp, fileChunks) # gs) st =
     (case chunkLoop fileChunks [fileHeader fp] st of
        (fb, st') \<Rightarrow>
          fileLoop gs (st'\<lparr>contextBlocks := contextBlocks st' @ [join ''\<newline>\<newline>'' fb]\<rparr>))"

definition buildSystemPrompt :: "string \<Rightarrow> string" where
  "buildSystemPrompt rid =
     ''You are a code intelligence assistant for the repository `'' @ rid @ ''`.\<newline>\<newline>''
     @ ''Your job is to answer developer questions about this codebase accurately and concisely.\<newline>\<newline>''
     @ ''RULES:\<newline>''
     @ ''1. Answer ONLY using the code context provided below. Do not use outside knowledge.\<newline>''
     @ ''2. Always cite your sources using the [N] citation markers provided.\<newline>''
     @ ''3. Include exact file paths and line numbers in your answer.\<newline>''
     @ ''4. If the context does not contain enough information to answer, say so clearly ''
     @ emDash @ '' do not guess.\<newline>''
     @ ''5. Format code references using backticks.\<newline>''
     @ ''6. Keep answers concise. Developers want facts, not essays.''"

definition buildUserPrompt :: "string \<Rightarrow> string \<Rightarrow> string" where
  "buildUserPrompt query contextSection =
     ''## Codebase Context\<newline>\<newline>'' @ contextSection
     @ ''\<newline>\<newline>---\<newline>\<newline>## Question\<newline>\<newline>'' @ query
     @ ''\<newline>\<newline>## Answer (cite sources with [N] markers)''"

definition assembleContext ::
  "string \<Rightarrow> RetrievedChunk list \<Rightarrow> string \<Rightarrow> assemble_error + AssembledContext" where
  "assembleContext query cs rid =
     (case groupByFile cs of
        Inl err \<Rightarrow> Inl err
      | Inr grouped \<Rightarrow>
          (let st = fileLoop grouped
                      \<lparr>contextBlocks = [], citations = Map.empty, citationIndex = 1,
                       totalChars = 0\<rparr>;
               contextSection = join ''\<newline>\<newline>---\<newline>\<newline>'' (contextBlocks st);
               sys = buildSystemPrompt rid;
               usr = buildUserPrompt query contextSection
           in Inr \<lparr>systemPrompt = sys, userPrompt = usr, citationMap = citations st,
                   tokenEstimate = (length sys + length usr + 3) div 4\<rparr>))"

subsection \<open>The layout of the prompt, as the specification words it\<close>

text \<open>
  A context is a list of files, each with its path and its chunks, each chunk with its
  citation number. A chunk is rendered as its block under the marker \<^verbatim>\<open>[N]\<close>, a file as
  its header and the blocks of its chunks, the context as the files separated by
  \<^verbatim>\<open>---\<close>.
\<close>

type_synonym NumberedContext = "(string \<times> (nat \<times> RetrievedChunk) list) list"

definition renderFile :: "string \<times> (nat \<times> RetrievedChunk) list \<Rightarrow> string" where
  "renderFile f =
     join ''\<newline>\<newline>''
       (fileHeader (fst f) # map (\<lambda>(n, c). chunkBlock (citationKey n) c) (snd f))"

definition renderContext :: "NumberedContext \<Rightarrow> string" where
  "renderContext fs = join ''\<newline>\<newline>---\<newline>\<newline>'' (map renderFile fs)"

text \<open>The markers of a context, with the chunk each one heads.\<close>

definition markers :: "NumberedContext \<Rightarrow> (nat \<times> RetrievedChunk) list" where
  "markers fs = concat (map snd fs)"

subsection \<open>Vocabulary of the assembler's properties\<close>

text \<open>The blocks of numbered chunks.\<close>

definition blocksOf :: "(nat \<times> RetrievedChunk) list \<Rightarrow> string list" where
  "blocksOf ncs = map (\<lambda>(n, c). chunkBlock (citationKey n) c) ncs"

text \<open>Groups that are not empty and hold chunks of a given list only.\<close>

definition groups_within :: "RetrievedChunk list \<Rightarrow> Grouped \<Rightarrow> bool" where
  "groups_within cs g = (\<forall>k v. (k, v) \<in> set g \<longrightarrow> v \<noteq> [] \<and> set v \<subseteq> set cs)"

text \<open>Three retrieved chunks of two files, one of them named by a number.\<close>

definition sampleRetrieved :: "RetrievedChunk list" where
  "sampleRetrieved =
     [\<lparr>rFilePath = ''src/auth.ts'', rStartLine = 10, rEndLine = 12, rSymbolName = Some ''login'',
       rContent = ''function login() {}'', rLanguage = ''typescript''\<rparr>,
      \<lparr>rFilePath = ''7'', rStartLine = 1, rEndLine = 3, rSymbolName = None,
       rContent = ''x'', rLanguage = ''text''\<rparr>,
      \<lparr>rFilePath = ''src/auth.ts'', rStartLine = 1, rEndLine = 3, rSymbolName = Some [],
       rContent = ''import x'', rLanguage = ''typescript''\<rparr>]"

section \<open>Properties of the file filter\<close>


lemma firstIgnoredPart_Some:
  "firstIgnoredPart ps = Some p \<Longrightarrow> p \<in> set ps \<and> p \<in> set IGNORED_PATHS"
  by (induction ps) (auto split: if_splits)







section \<open>Properties of the chunker\<close>

lemma length_slice: "length (slice a b xs) = min b (length xs) - a"
  by (simp add: slice_def)

lemma slidingWindowLoop_shape:
  "c \<in> set (slidingWindowLoop rid fpath lines lang i idx) \<Longrightarrow> chunk_shape rid fpath c"
proof (induction rid fpath lines lang i idx rule: slidingWindowLoop.induct)
  case (1 rid fpath lines lang i idx)
  from "1.prems" show ?case
    apply (subst (asm) slidingWindowLoop.simps)
    apply (simp add: Let_def length_slice split: if_splits)
    using "1.IH"
    apply (auto simp: chunk_shape_def length_slice Let_def MIN_CHUNK_LINES_def SLIDING_WINDOW_SIZE_def)
    done
qed

lemma slidingWindowLoop_language:
  "c \<in> set (slidingWindowLoop rid fpath lines lang i idx) \<Longrightarrow> language c = lang"
proof (induction rid fpath lines lang i idx rule: slidingWindowLoop.induct)
  case (1 rid fpath lines lang i idx)
  from "1.prems" show ?case
    apply (subst (asm) slidingWindowLoop.simps)
    apply (simp add: Let_def split: if_splits)
    using "1.IH"
    apply (auto simp: Let_def)
    done
qed

lemma slidingWindowLoop_empty_language:
  "slidingWindowLoop rid fpath lines lang i idx = []
   \<Longrightarrow> slidingWindowLoop rid fpath lines lang' i idx = []"
proof (induction rid fpath lines lang i idx rule: slidingWindowLoop.induct)
  case (1 rid fpath lines lang i idx)
  from "1.prems" show ?case
    apply (subst (asm) slidingWindowLoop.simps)
    apply (subst slidingWindowLoop.simps)
    apply (simp add: Let_def split: if_splits)
    using "1.IH"
    apply (auto simp: Let_def)
    done
qed

lemma splitLoop_shape:
  "c \<in> set (splitLoop rid fpath lang chunkLines blockStart sname baseIndex i n)
   \<Longrightarrow> chunk_shape rid fpath c"
proof (induction rid fpath lang chunkLines blockStart sname baseIndex i n rule: splitLoop.induct)
  case (1 rid fpath lang chunkLines blockStart sname baseIndex i n)
  from "1.prems" show ?case
    apply (subst (asm) splitLoop.simps)
    apply (simp add: Let_def length_slice split: if_splits)
    using "1.IH"
    apply (auto simp: chunk_shape_def length_slice Let_def MIN_CHUNK_LINES_def MAX_CHUNK_LINES_def)
    done
qed

lemma splitIfTooLarge_shape:
  "c \<in> set (splitIfTooLarge rid fpath lang chunkLines blockStart sname baseIndex)
   \<Longrightarrow> chunk_shape rid fpath c"
  by (auto simp: splitIfTooLarge_def chunk_shape_def MIN_CHUNK_LINES_def MAX_CHUNK_LINES_def
      dest: splitLoop_shape split: if_splits)

lemma symbolLoop_shape:
  "c \<in> set (symbolLoop rid fpath lang lines bs i) \<Longrightarrow> chunk_shape rid fpath c"
proof (induction bs arbitrary: i)
  case Nil
  then show ?case by simp
next
  case (Cons b bs)
  then show ?case
    by (cases b) (auto simp: Let_def dest: splitIfTooLarge_shape)
qed

lemma chunkFile_shape:
  assumes "c \<in> set (chunks (chunkFile rid fpath body))"
  shows "chunk_shape rid fpath c"
  using assms
  by (auto simp: chunkFile_def Let_def chunkTypeScript_def chunkPython_def slidingWindowChunk_def
      dest: symbolLoop_shape slidingWindowLoop_shape split: if_splits)

lemma digitChar_isDigit: "d < 10 \<Longrightarrow> isDigit (digitChar d)"
proof -
  assume "d < 10"
  then have "d \<in> {0, 1, 2, 3, 4, 5, 6, 7, 8, 9}" by auto
  then show ?thesis by (auto simp: digitChar_def isDigit_def)
qed

lemma digitChar_inj: "a < 10 \<Longrightarrow> b < 10 \<Longrightarrow> digitChar a = digitChar b \<Longrightarrow> a = b"
proof -
  assume "a < 10" "b < 10" and eq: "digitChar a = digitChar b"
  then have "a \<in> {0, 1, 2, 3, 4, 5, 6, 7, 8, 9}" "b \<in> {0, 1, 2, 3, 4, 5, 6, 7, 8, 9}" by auto
  with eq show ?thesis by (auto simp: digitChar_def)
qed

lemma showNat_digits: "\<forall>c \<in> set (showNat n). isDigit c"
proof (induction n rule: showNat.induct)
  case (1 n)
  show ?case
  proof (cases "n < 10")
    case True
    then show ?thesis by (subst showNat.simps) (simp add: digitChar_isDigit)
  next
    case False
    with 1 show ?thesis by (subst showNat.simps) (simp add: digitChar_isDigit)
  qed
qed

lemma showNat_nonempty: "showNat n \<noteq> []"
  by (subst showNat.simps) simp

lemma showNat_inj: "showNat a = showNat b \<Longrightarrow> a = b"
proof (induction a arbitrary: b rule: showNat.induct)
  case (1 a)
  show ?case
  proof (cases "a < 10")
    case True
    show ?thesis
    proof (cases "b < 10")
      case True
      with \<open>a < 10\<close> "1.prems" show ?thesis
        by (simp add: showNat.simps [of a] showNat.simps [of b] digitChar_inj)
    next
      case False
      with \<open>a < 10\<close> "1.prems" showNat_nonempty [of "b div 10"] show ?thesis
        by (simp add: showNat.simps [of a] showNat.simps [of b] Cons_eq_append_conv)
    qed
  next
    case False
    show ?thesis
    proof (cases "b < 10")
      case True
      with \<open>\<not> a < 10\<close> "1.prems" showNat_nonempty [of "a div 10"] show ?thesis
        by (simp add: showNat.simps [of a] showNat.simps [of b] append_eq_Cons_conv)
    next
      case False
      with \<open>\<not> a < 10\<close> "1.prems"
      have eq: "showNat (a div 10) = showNat (b div 10)" "digitChar (a mod 10) = digitChar (b mod 10)"
        by (simp_all add: showNat.simps [of a] showNat.simps [of b])
      from eq(1) "1.IH" \<open>\<not> a < 10\<close> have "a div 10 = b div 10" by simp
      moreover from eq(2) have "a mod 10 = b mod 10" by (simp add: digitChar_inj)
      ultimately show ?thesis by (metis div_mult_mod_eq)
    qed
  qed
qed

lemma digits_suffix_unique:
  assumes "xs @ ''__L'' @ ds = ys @ ''__L'' @ es"
    and "\<forall>c \<in> set ds. isDigit c" and "\<forall>c \<in> set es. isDigit c"
  shows "xs = ys \<and> ds = es"
proof -
  have notd: "\<not> isDigit CHR ''L''" by (simp add: isDigit_def)
  from assms(1) have "rev ds @ (CHR ''L'' # ''__'' @ rev xs) = rev es @ (CHR ''L'' # ''__'' @ rev ys)"
    by (metis (no_types, opaque_lifting) append.assoc append_Cons append_Nil rev.simps rev_append rev_rev_ident)
  moreover have "takeWhile isDigit (rev ds @ (CHR ''L'' # ''__'' @ rev xs)) = rev ds"
    using assms(2) notd by (simp add: takeWhile_tail)
  moreover have "takeWhile isDigit (rev es @ (CHR ''L'' # ''__'' @ rev ys)) = rev es"
    using assms(3) notd by (simp add: takeWhile_tail)
  ultimately have "rev ds = rev es" by simp
  then have "ds = es" by simp
  with assms(1) show ?thesis by simp
qed

lemma makeChunkId_eq_iff:
  "makeChunkId rid p1 n1 = makeChunkId rid p2 n2 \<longleftrightarrow> safe p1 = safe p2 \<and> n1 = n2"
proof
  assume "makeChunkId rid p1 n1 = makeChunkId rid p2 n2"
  then have "safe p1 @ ''__L'' @ showNat n1 = safe p2 @ ''__L'' @ showNat n2"
    by (simp add: makeChunkId_def)
  then have "safe p1 = safe p2 \<and> showNat n1 = showNat n2"
    using digits_suffix_unique showNat_digits by blast
  then show "safe p1 = safe p2 \<and> n1 = n2"
    by (simp add: showNat_inj)
next
  assume "safe p1 = safe p2 \<and> n1 = n2"
  then show "makeChunkId rid p1 n1 = makeChunkId rid p2 n2"
    by (simp add: makeChunkId_def)
qed

lemma slidingWindowLoop_chunkIndex:
  "map chunkIndex (slidingWindowLoop rid fpath lines lang i idx)
     = [idx ..< idx + length (slidingWindowLoop rid fpath lines lang i idx)]"
proof (induction rid fpath lines lang i idx rule: slidingWindowLoop.induct)
  case (1 rid fpath lines lang i idx)
  show ?case
  proof (cases "i < length lines")
    case False
    then show ?thesis by (subst (1 2) slidingWindowLoop.simps) simp
  next
    case inside: True
    let ?e = "min (i + SLIDING_WINDOW_SIZE) (length lines)"
    let ?step = "i + (SLIDING_WINDOW_SIZE - SLIDING_WINDOW_OVERLAP)"
    show ?thesis
    proof (cases "length (slice i ?e lines) < MIN_CHUNK_LINES")
      case True
      with inside "1.IH"(1) [OF inside refl refl refl True] show ?thesis
        by (subst (1 2) slidingWindowLoop.simps) (simp add: Let_def)
    next
      case enough: False
      show ?thesis
      proof (cases "?e \<ge> length lines")
        case True
        with inside enough show ?thesis
          by (subst (1 2) slidingWindowLoop.simps) (simp add: Let_def)
      next
        case False
        let ?rest = "slidingWindowLoop rid fpath lines lang ?step (idx + 1)"
        have u: "[idx ..< idx + Suc (length ?rest)] = idx # [idx + 1 ..< idx + 1 + length ?rest]"
          by (subst upt_rec) simp
        from inside enough False
        have "slidingWindowLoop rid fpath lines lang i idx
                = \<lparr>chunkId = makeChunkId rid fpath (i + 1), repoId = rid, filePath = fpath,
                     language = lang, content = join ''\<newline>'' (slice i ?e lines),
                     startLine = i + 1, endLine = ?e, symbolName = None, chunkIndex = idx\<rparr>
                  # ?rest"
          by (subst slidingWindowLoop.simps) (simp add: Let_def)
        with u "1.IH"(2) [OF inside refl refl refl enough False] show ?thesis
          by simp
      qed
    qed
  qed
qed

text \<open>
  C2. Every chunk that \<^verbatim>\<open>chunkFile\<close> emits, whichever strategy produced it (a symbol block,
  a sub-chunk of a split symbol block, a sliding window), has at least 3 and at most 150
  lines: \<^verbatim>\<open>3 <= endLine - startLine + 1 <= 150\<close>.
\<close>

theorem chunkFile_line_bounds:
  "c \<in> set (chunks (chunkFile rid fpath body)) \<Longrightarrow> 3 \<le> lineCount c \<and> lineCount c \<le> 150"
  using chunkFile_shape [of c rid fpath body]
  by (simp add: chunk_shape_def lineCount_def)

theorem chunkFile_line_bounds_witness:
  "3 \<le> lineCount (chunks (chunkFile ''o/r'' ''a.ts''
           (''function f() {'' @ replicate 151 CHR ''\<newline>''
             @ ''function g() {\<newline>  return 1;\<newline>}'')) ! 1)
   \<and> lineCount (chunks (chunkFile ''o/r'' ''a.ts''
           (''function f() {'' @ replicate 151 CHR ''\<newline>''
             @ ''function g() {\<newline>  return 1;\<newline>}'')) ! 1) \<le> 150"
proof -
  let ?cs = "chunks (chunkFile ''o/r'' ''a.ts''
           (''function f() {'' @ replicate 151 CHR ''\<newline>''
             @ ''function g() {\<newline>  return 1;\<newline>}''))"
  have "length ?cs = 3" by code_simp
  then have "?cs ! 1 \<in> set ?cs" by simp
  then show ?thesis by (rule chunkFile_line_bounds)
qed

text \<open>
  C4 (as amended). For a file whose extension \<^verbatim>\<open>chunkFile\<close> does not hand to a symbol-aware
  chunker (\<^verbatim>\<open>.md\<close>, \<^verbatim>\<open>.mdx\<close>, \<^verbatim>\<open>.json\<close>, \<^verbatim>\<open>.yaml\<close>, \<^verbatim>\<open>.yml\<close>, \<^verbatim>\<open>.toml\<close> and every
  other one), every emitted chunk carries the language \<^verbatim>\<open>text\<close>: the sliding window is
  called with that literal, and the extension map is consulted only when no chunk was
  produced, where the second sliding window over the same lines produces none either.
\<close>

theorem chunkFile_other_extension_text:
  assumes "toLowerCase (extname fpath) \<notin> set symbolAwareExtensions"
    and "c \<in> set (chunks (chunkFile rid fpath body))"
  shows "language c = ''text''"
proof -
  let ?lines = "split_on CHR ''\<newline>'' body"
  let ?first = "slidingWindowChunk rid fpath ?lines ''text''"
  from assms(1) have other:
    "chunks (chunkFile rid fpath body)
       = (if ?first = []
          then slidingWindowChunk rid fpath ?lines (detectLanguage (toLowerCase (extname fpath)))
          else ?first)"
    by (simp add: chunkFile_def Let_def symbolAwareExtensions_def)
  show ?thesis
  proof (cases "?first = []")
    case True
    then have "slidingWindowChunk rid fpath ?lines (detectLanguage (toLowerCase (extname fpath))) = []"
      by (simp add: slidingWindowChunk_def slidingWindowLoop_empty_language)
    with True other assms(2) show ?thesis by simp
  next
    case False
    with other assms(2) show ?thesis
      by (simp add: slidingWindowChunk_def slidingWindowLoop_language)
  qed
qed

theorem chunkFile_other_extension_text_witness:
  "toLowerCase (extname ''deploy/config.YAML'') \<notin> set symbolAwareExtensions
   \<and> language (hd (chunks (chunkFile ''o/r'' ''deploy/config.YAML''
        ''name: api\<newline>port: 8000\<newline>debug: false''))) = ''text''"
proof -
  let ?cs = "chunks (chunkFile ''o/r'' ''deploy/config.YAML''
        ''name: api\<newline>port: 8000\<newline>debug: false'')"
  have e: "toLowerCase (extname ''deploy/config.YAML'') \<notin> set symbolAwareExtensions"
    by code_simp
  have "length ?cs = 1" by code_simp
  then have "hd ?cs \<in> set ?cs" by (cases ?cs) simp_all
  with e have "language (hd ?cs) = ''text''" by (rule chunkFile_other_extension_text)
  with e show ?thesis by simp
qed

text \<open>
  The claim as stated fails: a Markdown file's chunk carries \<^verbatim>\<open>text\<close>, where the
  extension map gives \<^verbatim>\<open>markdown\<close>.
\<close>

theorem chunkFile_markdown_counterexample:
  "toLowerCase (extname ''README.md'') = ''.md''
   \<and> detectLanguage ''.md'' = ''markdown''
   \<and> map language (chunks (chunkFile ''o/r'' ''README.md'' ''# Title\<newline>\<newline>body'')) = [''text'']"
  by code_simp

text \<open>
  C5 fails on the code. The symbol-aware chunkers pass the index of the boundary as the
  chunk's index: a block under 3 lines is skipped and leaves a gap (the first chunk emitted
  below has index 1), and a block split in two takes two indices, the second of which the
  next block takes again. The sliding window counts the chunks it emits
  (\<open>slidingWindowLoop_chunkIndex\<close>).
\<close>

theorem chunkTypeScript_chunkIndex_not_position:
  "map chunkIndex (chunks (chunkFile ''o/r'' ''src/a.ts''
      ''function a() {}\<newline>function b() {\<newline>  return 1;\<newline>}'')) = [1]
   \<and> map chunkIndex (chunks (chunkFile ''o/r'' ''a.ts''
        (''function f() {'' @ replicate 151 CHR ''\<newline>''
          @ ''function g() {\<newline>  return 1;\<newline>}''))) = [0, 1, 1]"
  by code_simp

text \<open>
  C6 (as amended). The id of a chunk is a function of the repository, the path and the
  start line, the same on every run: every chunk emitted for a file has the id
  \<^verbatim>\<open>makeChunkId repoId filePath startLine\<close>. Within one repository two ids are equal
  exactly when the start lines are equal and the paths are equal once every
  non-alphanumeric character is replaced by an underscore; so chunks of one file with
  different start lines have different ids, and chunks of two files collide only when the
  files' sanitised paths coincide.
\<close>

theorem makeChunkId_deterministic_collisions:
  "(c \<in> set (chunks (chunkFile rid fpath body))
      \<longrightarrow> chunkId c = makeChunkId rid fpath (startLine c) \<and> repoId c = rid \<and> filePath c = fpath)
   \<and> (makeChunkId rid p1 n1 = makeChunkId rid p2 n2 \<longleftrightarrow> safe p1 = safe p2 \<and> n1 = n2)"
  using chunkFile_shape [of c rid fpath body] makeChunkId_eq_iff [of rid p1 n1 p2 n2]
  by (simp add: chunk_shape_def)

theorem makeChunkId_deterministic_collisions_witness:
  "chunkId (hd (chunks (chunkFile ''o/r'' ''docs/notes.md'' ''one\<newline>two\<newline>three'')))
     = makeChunkId ''o/r'' ''docs/notes.md''
         (startLine (hd (chunks (chunkFile ''o/r'' ''docs/notes.md'' ''one\<newline>two\<newline>three''))))
   \<and> makeChunkId ''o/r'' ''src/a.ts'' 1 \<noteq> makeChunkId ''o/r'' ''src/a.ts'' 46
   \<and> makeChunkId ''o/r'' ''src/a.ts'' 1 \<noteq> makeChunkId ''o/r'' ''src/b.ts'' 1"
proof -
  let ?cs = "chunks (chunkFile ''o/r'' ''docs/notes.md'' ''one\<newline>two\<newline>three'')"
  have "length ?cs = 1" by code_simp
  then have mem: "hd ?cs \<in> set ?cs" by (cases ?cs) simp_all
  have s: "safe ''src/a.ts'' \<noteq> safe ''src/b.ts''" by (simp add: safe_def isAlnum_def)
  from mem makeChunkId_deterministic_collisions [of "hd ?cs" "''o/r''" "''docs/notes.md''"
      "''one\<newline>two\<newline>three''" "''src/a.ts''" 1 "''src/a.ts''" 46]
  have "chunkId (hd ?cs) = makeChunkId ''o/r'' ''docs/notes.md'' (startLine (hd ?cs))"
    and "makeChunkId ''o/r'' ''src/a.ts'' 1 \<noteq> makeChunkId ''o/r'' ''src/a.ts'' 46"
    by simp_all
  moreover from s makeChunkId_deterministic_collisions [of "hd ?cs" "''o/r''" "''docs/notes.md''"
      "''one\<newline>two\<newline>three''" "''src/a.ts''" 1 "''src/b.ts''" 1]
  have "makeChunkId ''o/r'' ''src/a.ts'' 1 \<noteq> makeChunkId ''o/r'' ''src/b.ts'' 1"
    by simp
  ultimately show ?thesis by simp
qed

text \<open>
  The claim as stated fails: two files of one repository whose paths differ only in
  non-alphanumeric characters give their first chunks the same id.
\<close>

theorem makeChunkId_collision_counterexample:
  "map (\<lambda>c. (filePath c, startLine c, chunkId c))
       (chunks (chunkFile ''o/r'' ''a/b.md'' ''x\<newline>y\<newline>z''))
     = [(''a/b.md'', 1, ''o_r__a_b_md__L1'')]
   \<and> map (\<lambda>c. (filePath c, startLine c, chunkId c))
       (chunks (chunkFile ''o/r'' ''a_b.md'' ''x\<newline>y\<newline>z''))
     = [(''a_b.md'', 1, ''o_r__a_b_md__L1'')]"
  by code_simp

section \<open>Properties of the vector store writer\<close>

lemma presentHash_Some: "presentHash h = Some s \<longleftrightarrow> h = Some s \<and> s \<noteq> []"
  by (auto simp: presentHash_def split: option.splits if_splits)

lemma writeToVectorStore_skip:
  assumes "presentHash (commitHash options) = Some h"
    and "repoIndex st (owner (repoMeta options) @ ''/'' @ repo (repoMeta options)) = Some existing"
    and "commit_hash existing = Some h"
  shows "writeToVectorStore embedded options now st
           = (st, Inr \<lparr>resultRepoId = owner (repoMeta options) @ ''/'' @ repo (repoMeta options),
                       writeStrategy = Skipped, chunksWritten = 0, chunksDeleted = 0\<rparr>)"
  using assms by (simp add: writeToVectorStore_def Let_def)

lemma fullReindex_records_hash:
  assumes "fullReindex rid embedded options now st = (st', Inr res)"
  shows "\<exists>row. repoIndex st' rid = Some row \<and> commit_hash row = commitHash options"
  using assms
  by (auto simp: fullReindex_def Let_def split: prod.splits sum.splits option.splits)

lemma writeToVectorStore_twice:
  assumes h: "presentHash (commitHash options) = Some h"
    and first: "writeToVectorStore embedded options now st = (st1, Inr res1)"
  shows "writeToVectorStore embedded options now' st1
           = (st1, Inr \<lparr>resultRepoId = owner (repoMeta options) @ ''/'' @ repo (repoMeta options),
                        writeStrategy = Skipped, chunksWritten = 0, chunksDeleted = 0\<rparr>)"
proof -
  let ?rid = "owner (repoMeta options) @ ''/'' @ repo (repoMeta options)"
  from h have ch: "commitHash options = Some h" by (simp add: presentHash_Some)
  have "\<exists>row. repoIndex st1 ?rid = Some row \<and> commit_hash row = Some h"
  proof (cases "case repoIndex st ?rid of None \<Rightarrow> False | Some existing \<Rightarrow> commit_hash existing = Some h")
    case True
    with h first have "st1 = st" by (simp add: writeToVectorStore_def Let_def)
    with True show ?thesis by (auto split: option.splits)
  next
    case False
    with h first have "fullReindex ?rid embedded options now st = (st1, Inr res1)"
      by (simp add: writeToVectorStore_def Let_def)
    from fullReindex_records_hash [OF this] ch show ?thesis by simp
  qed
  then obtain row where "repoIndex st1 ?rid = Some row" "commit_hash row = Some h" by blast
  with h show ?thesis by (rule writeToVectorStore_skip)
qed

lemma batchLoop_total:
  "batchLoop upsert embedded i t st = (st', Inr n) \<Longrightarrow> n = t + (length embedded - i)"
proof (induction upsert embedded i t st rule: batchLoop.induct)
  case (1 upsert embedded i t st)
  show ?case
  proof (cases "i < length embedded")
    case False
    with "1.prems" show ?thesis by (simp add: batchLoop.simps [of upsert embedded i])
  next
    case True
    let ?batch = "slice i (i + INSERT_BATCH_SIZE) embedded"
    let ?vals = "valuesClause i (length ?batch)"
    let ?params = "concat (map chunkParams ?batch)"
    obtain s r where ex: "executeRawUnsafe ?vals upsert ?params st = (s, r)" by force
    show ?thesis
    proof (cases r)
      case (Inl e)
      with True ex "1.prems" show ?thesis
        by (simp add: batchLoop.simps [of upsert embedded i] Let_def)
    next
      case (Inr u)
      with True ex "1.prems"
      have "batchLoop upsert embedded (i + INSERT_BATCH_SIZE) (t + length ?batch) s = (st', Inr n)"
        by (simp add: batchLoop.simps [of upsert embedded i] Let_def)
      from "1.IH" [OF True refl refl refl ex [symmetric] _ this] Inr
      have "n = t + length ?batch + (length embedded - (i + INSERT_BATCH_SIZE))" by simp
      with True show ?thesis by (simp add: length_slice)
    qed
  qed
qed

lemma length_chunkParams: "length (chunkParams e) = 11"
  by (simp add: chunkParams_def)

lemma length_concat_params: "length (concat (map chunkParams es)) = 11 * length es"
  by (induction es) (simp_all add: length_chunkParams)

lemma concat_params_nth:
  "i < length es \<Longrightarrow> j < 11 \<Longrightarrow>
   concat (map chunkParams es) ! (i * 11 + j) = chunkParams (es ! i) ! j"
proof (induction es arbitrary: i)
  case Nil
  then show ?case by simp
next
  case (Cons e es)
  show ?case
  proof (cases i)
    case 0
    with Cons.prems show ?thesis by (simp add: nth_append length_chunkParams)
  next
    case (Suc i')
    with Cons.prems have "i' < length es" by simp
    from Cons.IH [OF this Cons.prems(2)] Suc show ?thesis
      by (simp add: nth_append length_chunkParams)
  qed
qed

lemma rowOfValues_chunkParams: "rowOfValues (chunkParams e) = Some e"
  by (cases "symbolName (chunk e)") (simp_all add: rowOfValues_def chunkParams_def)

lemma bindAll_map:
  "\<forall>k \<in> set ks. 1 \<le> k \<and> k \<le> length params
   \<Longrightarrow> bindAll params ks = Some (map (\<lambda>k. params ! (k - 1)) ks)"
  by (induction ks) (simp_all add: bindPlaceholder_def)

lemma bindAll_row:
  assumes "idx < length es"
  shows "bindAll (concat (map chunkParams es)) (map (\<lambda>k. (0 + idx) * 11 + k) [1 ..< 12])
           = Some (chunkParams (es ! idx))"
proof -
  let ?params = "concat (map chunkParams es)"
  let ?ks = "map (\<lambda>k. (0 + idx) * 11 + k) [1 ..< 12]"
  from assms have "\<forall>k \<in> set ?ks. 1 \<le> k \<and> k \<le> length ?params"
    by (auto simp: length_concat_params)
  then have "bindAll ?params ?ks = Some (map (\<lambda>k. ?params ! (k - 1)) ?ks)"
    by (rule bindAll_map)
  moreover have "map (\<lambda>k. ?params ! (k - 1)) ?ks = chunkParams (es ! idx)"
  proof (rule nth_equalityI)
    show "length (map (\<lambda>k. ?params ! (k - 1)) ?ks) = length (chunkParams (es ! idx))"
      by (simp add: length_chunkParams)
  next
    fix j
    assume "j < length (map (\<lambda>k. ?params ! (k - 1)) ?ks)"
    then have j: "j < 11" by simp
    then have "map (\<lambda>k. ?params ! (k - 1)) ?ks ! j = ?params ! (idx * 11 + j)"
      by (simp del: upt_Suc)
    with assms j show "map (\<lambda>k. ?params ! (k - 1)) ?ks ! j = chunkParams (es ! idx) ! j"
      by (simp add: concat_params_nth)
  qed
  ultimately show ?thesis by simp
qed

lemma bindRows_indices:
  "\<forall>idx \<in> set ixs. idx < length es \<Longrightarrow>
   bindRows (concat (map chunkParams es)) (map (\<lambda>idx. map (\<lambda>k. (0 + idx) * 11 + k) [1 ..< 12]) ixs)
     = Some (map (\<lambda>idx. es ! idx) ixs)"
proof (induction ixs)
  case Nil
  then show ?case by simp
next
  case (Cons a ixs)
  then have "a < length es" by simp
  from bindAll_row [OF this] Cons show ?case
    by (simp add: rowOfValues_chunkParams del: upt_Suc)
qed

lemma bindRows_first_batch:
  "bindRows (concat (map chunkParams es)) (valuesClause 0 (length es)) = Some es"
  using bindRows_indices [of "[0 ..< length es]" es]
  by (simp add: valuesClause_def map_nth)

lemma bindRows_None:
  "ks \<in> set kss \<Longrightarrow> bindAll params ks = None \<Longrightarrow> bindRows params kss = None"
  by (induction kss) (auto split: option.splits)

lemma bindRows_later_batch:
  assumes "0 < i" and "0 < n" and "length params = 11 * n"
  shows "bindRows params (valuesClause i n) = None"
proof -
  let ?ks = "map (\<lambda>k. (i + (n - 1)) * 11 + k) [1 ..< 12]"
  from assms(2) have "n - 1 \<in> set [0 ..< n]" by simp
  then have mem: "?ks \<in> set (valuesClause i n)"
    by (auto simp: valuesClause_def simp del: upt_Suc intro!: image_eqI [where x = "n - 1"])
  from assms have "bindPlaceholder params ((i + (n - 1)) * 11 + 1) = None"
    by (simp add: bindPlaceholder_def)
  moreover have "?ks = ((i + (n - 1)) * 11 + 1) # map (\<lambda>k. (i + (n - 1)) * 11 + k) [2 ..< 12]"
    by (simp add: upt_rec)
  ultimately have "bindAll params ?ks = None"
    by simp
  with mem show ?thesis by (rule bindRows_None)
qed

lemma batchLoop_later_batch:
  assumes "0 < i" and "i < length embedded"
  shows "batchLoop upsert embedded i t st = (st, Inl ParameterMismatch)"
proof -
  let ?batch = "slice i (i + INSERT_BATCH_SIZE) embedded"
  from assms(2) have "0 < length ?batch"
    by (simp add: length_slice INSERT_BATCH_SIZE_def)
  with assms(1) have "bindRows (concat (map chunkParams ?batch)) (valuesClause i (length ?batch)) = None"
    by (intro bindRows_later_batch) (simp_all add: length_concat_params)
  then have "executeRawUnsafe (valuesClause i (length ?batch)) upsert (concat (map chunkParams ?batch)) st
               = (st, Inl ParameterMismatch)"
    by (simp add: executeRawUnsafe_def)
  with assms(2) show ?thesis
    by (simp add: batchLoop.simps [of upsert embedded i] Let_def)
qed

lemma slice_all: "length xs \<le> b \<Longrightarrow> slice 0 b xs = xs"
  by (simp add: slice_def)

lemma batchInsertChunks_over_batch_size:
  assumes "INSERT_BATCH_SIZE < length embedded"
  shows "\<exists>st' err. batchInsertChunks embedded upsert st = (st', Inl err)"
proof -
  let ?batch = "slice 0 (0 + INSERT_BATCH_SIZE) embedded"
  let ?vals = "valuesClause 0 (length ?batch)"
  let ?params = "concat (map chunkParams ?batch)"
  obtain s r where ex: "executeRawUnsafe ?vals upsert ?params st = (s, r)" by force
  from assms have pos: "0 < length embedded" by (cases embedded) simp_all
  show ?thesis
  proof (cases r)
    case (Inl e)
    with ex pos show ?thesis
      by (simp add: batchInsertChunks_def batchLoop.simps [of upsert embedded 0] Let_def)
  next
    case (Inr u)
    from assms have "batchLoop upsert embedded (0 + INSERT_BATCH_SIZE) (0 + length ?batch) s
                       = (s, Inl ParameterMismatch)"
      by (intro batchLoop_later_batch) (simp_all add: INSERT_BATCH_SIZE_def)
    with Inr ex pos show ?thesis
      by (simp add: batchInsertChunks_def batchLoop.simps [of upsert embedded 0] Let_def)
  qed
qed

lemma batchInsertChunks_success:
  assumes "batchInsertChunks embedded upsert st = (st', Inr n)"
  shows "n = length embedded \<and> length embedded \<le> INSERT_BATCH_SIZE
         \<and> repoIndex st' = repoIndex st
         \<and> insertRows upsert embedded [] (codeChunks st) = Inr (codeChunks st')"
proof -
  have size: "length embedded \<le> INSERT_BATCH_SIZE"
  proof (rule ccontr)
    assume "\<not> length embedded \<le> INSERT_BATCH_SIZE"
    then have "INSERT_BATCH_SIZE < length embedded" by simp
    from batchInsertChunks_over_batch_size [OF this, of upsert st] assms show False by auto
  qed
  from assms have n: "n = length embedded"
    using batchLoop_total [of upsert embedded 0 0 st st' n] by (simp add: batchInsertChunks_def)
  show ?thesis
  proof (cases "embedded = []")
    case True
    with assms n size show ?thesis
      by (simp add: batchInsertChunks_def batchLoop.simps [of upsert "[]"])
  next
    case False
    from size have sl: "slice 0 (0 + INSERT_BATCH_SIZE) embedded = embedded"
      by (simp add: slice_all)
    from False size have stop: "\<And>t s. batchLoop upsert embedded (0 + INSERT_BATCH_SIZE) t s = (s, Inr t)"
      by (simp add: batchLoop.simps [of upsert embedded INSERT_BATCH_SIZE])
    from False assms sl stop have
      "insertRows upsert embedded [] (codeChunks st) = Inr (codeChunks st') \<and> repoIndex st' = repoIndex st"
      by (auto simp: batchInsertChunks_def batchLoop.simps [of upsert embedded 0] Let_def
          executeRawUnsafe_def bindRows_first_batch split: sum.splits)
    with n size show ?thesis by simp
  qed
qed

lemma conflictUpdate_other: "rowId old \<noteq> rowId new \<Longrightarrow> conflictUpdate new old = old"
  by (simp add: conflictUpdate_def)

lemma insertRows_keeps_others:
  "insertRows upsert rs touched table = Inr table' \<Longrightarrow> old \<in> set table
   \<Longrightarrow> rowId old \<notin> set (map rowId rs) \<Longrightarrow> old \<in> set table'"
proof (induction rs arbitrary: touched table)
  case Nil
  then show ?case by simp
next
  case (Cons r rs)
  from Cons.prems(3) have ne: "rowId old \<noteq> rowId r" and rest: "rowId old \<notin> set (map rowId rs)"
    by auto
  from Cons.prems(2) ne have upd: "old \<in> set (map (conflictUpdate r) table)"
    using conflictUpdate_other [of old r] by force
  from Cons.prems(1) show ?case
    using Cons.IH [OF _ Cons.prems(2) rest] Cons.IH [OF _ upd rest]
      Cons.IH [of _ "table @ [r]", OF _ _ rest] Cons.prems(2)
    by (auto split: if_splits)
qed

lemma insertRows_do_nothing: "\<exists>table'. insertRows False rs touched table = Inr table'"
  by (induction rs arbitrary: touched table) auto

lemma executeRawUnsafe_no_upsert:
  "snd (executeRawUnsafe vals False params st) \<noteq> Inl CardinalityViolation"
proof (cases "bindRows params vals")
  case None
  then show ?thesis by (simp add: executeRawUnsafe_def)
next
  case (Some rows)
  from insertRows_do_nothing [of rows "[]" "codeChunks st"]
  obtain table' where "insertRows False rows [] (codeChunks st) = Inr table'" by blast
  with Some show ?thesis by (simp add: executeRawUnsafe_def)
qed

lemma executeRawUnsafe_repoIndex:
  "repoIndex (fst (executeRawUnsafe vals upsert params st)) = repoIndex st"
  by (simp add: executeRawUnsafe_def split: option.splits sum.splits)

lemma batchLoop_repoIndex:
  "repoIndex (fst (batchLoop upsert embedded i t st)) = repoIndex st"
proof (induction upsert embedded i t st rule: batchLoop.induct)
  case (1 upsert embedded i t st)
  show ?case
  proof (cases "i < length embedded")
    case False
    then show ?thesis by (simp add: batchLoop.simps [of upsert embedded i])
  next
    case True
    let ?batch = "slice i (i + INSERT_BATCH_SIZE) embedded"
    let ?vals = "valuesClause i (length ?batch)"
    let ?params = "concat (map chunkParams ?batch)"
    obtain s r where ex: "executeRawUnsafe ?vals upsert ?params st = (s, r)" by force
    then have s: "repoIndex s = repoIndex st"
      using executeRawUnsafe_repoIndex [of ?vals upsert ?params st] by simp
    show ?thesis
    proof (cases r)
      case (Inl e)
      with True ex s show ?thesis
        by (simp add: batchLoop.simps [of upsert embedded i] Let_def)
    next
      case (Inr u)
      with "1.IH" [OF True refl refl refl ex [symmetric]] True ex s show ?thesis
        by (simp add: batchLoop.simps [of upsert embedded i] Let_def)
    qed
  qed
qed

lemma batchInsertChunks_over_batch_size_no_upsert:
  assumes "INSERT_BATCH_SIZE < length embedded"
  shows "snd (batchInsertChunks embedded False st) = Inl ParameterMismatch"
proof -
  let ?batch = "slice 0 (0 + INSERT_BATCH_SIZE) embedded"
  let ?vals = "valuesClause 0 (length ?batch)"
  let ?params = "concat (map chunkParams ?batch)"
  obtain s r where ex: "executeRawUnsafe ?vals False ?params st = (s, r)" by force
  from assms have pos: "0 < length embedded" by (cases embedded) simp_all
  show ?thesis
  proof (cases r)
    case (Inl e)
    with ex executeRawUnsafe_no_upsert [of ?vals ?params st] have "e = ParameterMismatch"
      by (cases e) simp_all
    with Inl ex pos show ?thesis
      by (simp add: batchInsertChunks_def batchLoop.simps [of False embedded 0] Let_def)
  next
    case (Inr u)
    from assms have "batchLoop False embedded (0 + INSERT_BATCH_SIZE) (0 + length ?batch) s
                       = (s, Inl ParameterMismatch)"
      by (intro batchLoop_later_batch) (simp_all add: INSERT_BATCH_SIZE_def)
    with Inr ex pos show ?thesis
      by (simp add: batchInsertChunks_def batchLoop.simps [of False embedded 0] Let_def)
  qed
qed

lemma deleteMany_repoIndex: "repoIndex (fst (deleteMany rid st)) = repoIndex st"
  by (simp add: deleteMany_def)

lemma fullReindex_over_batch_size:
  assumes "INSERT_BATCH_SIZE < length embedded"
  shows "snd (fullReindex rid embedded options now st) = Inl ParameterMismatch
         \<and> repoIndex (fst (fullReindex rid embedded options now st)) = repoIndex st"
proof -
  obtain st1 deleted where d:
    "(case repoIndex st rid of Some existing \<Rightarrow> deleteMany rid st | None \<Rightarrow> (st, 0)) = (st1, deleted)"
    by force
  then have r1: "repoIndex st1 = repoIndex st"
    using deleteMany_repoIndex [of rid st] by (auto split: option.splits)
  obtain st2 out where b: "batchInsertChunks embedded False st1 = (st2, out)" by force
  with batchInsertChunks_over_batch_size_no_upsert [OF assms, of st1]
  have out: "out = Inl ParameterMismatch" by simp
  from b have "repoIndex st2 = repoIndex st1"
    using batchLoop_repoIndex [of False embedded 0 0 st1] by (simp add: batchInsertChunks_def)
  with d b out r1 show ?thesis by (simp add: fullReindex_def)
qed

lemma writeToVectorStore_over_batch_size:
  assumes "presentHash (commitHash options) = Some h"
    and "\<forall>row. repoIndex st (owner (repoMeta options) @ ''/'' @ repo (repoMeta options)) = Some row
            \<longrightarrow> commit_hash row \<noteq> Some h"
    and "INSERT_BATCH_SIZE < length embedded"
  shows "snd (writeToVectorStore embedded options now st) = Inl ParameterMismatch
         \<and> repoIndex (fst (writeToVectorStore embedded options now st)) = repoIndex st"
proof -
  let ?rid = "owner (repoMeta options) @ ''/'' @ repo (repoMeta options)"
  from assms(1,2) have "writeToVectorStore embedded options now st
                        = fullReindex ?rid embedded options now st"
    by (auto simp: writeToVectorStore_def Let_def split: option.splits)
  with fullReindex_over_batch_size [OF assms(3)] show ?thesis by simp
qed

text \<open>
  C1 fails on the code for a list of more than 50 chunks. \<^verbatim>\<open>batchInsertChunks\<close> numbers
  the placeholders of a batch from \<^verbatim>\<open>(i + idx) * 11 + 1\<close>, \<^verbatim>\<open>i\<close> the index of the batch's
  first chunk in the whole list, and binds the values of that batch only: the statement of
  the second batch refers to \<^verbatim>\<open>$551\<close> and up with at most 550 values bound, and fails.
  The \<^verbatim>\<open>repo_index\<close> row is never written, so the second call with the same hash is not
  skipped: it runs the reindex and fails again. (For a write that completes the claim
  holds: \<open>writeToVectorStore_skip\<close>, \<open>writeToVectorStore_twice\<close>.)
\<close>

theorem writeToVectorStore_second_batch_fails:
  "snd (writeToVectorStore (map (\<lambda>n. sampleChunk n ''x'') [0 ..< 51])
          (sampleOptions (Some ''abc123'')) 1 emptyStore) = Inl ParameterMismatch
   \<and> snd (writeToVectorStore (map (\<lambda>n. sampleChunk n ''x'') [0 ..< 51])
          (sampleOptions (Some ''abc123'')) 2
          (fst (writeToVectorStore (map (\<lambda>n. sampleChunk n ''x'') [0 ..< 51])
             (sampleOptions (Some ''abc123'')) 1 emptyStore))) = Inl ParameterMismatch"
proof -
  let ?E = "map (\<lambda>n. sampleChunk n ''x'') [0 ..< 51]"
  let ?o = "sampleOptions (Some ''abc123'')"
  let ?st1 = "fst (writeToVectorStore ?E ?o 1 emptyStore)"
  have h: "presentHash (commitHash ?o) = Some ''abc123''"
    by (simp add: sampleOptions_def presentHash_def)
  have len: "INSERT_BATCH_SIZE < length ?E"
    by (simp add: INSERT_BATCH_SIZE_def)
  have none: "repoIndex emptyStore (owner (repoMeta ?o) @ ''/'' @ repo (repoMeta ?o)) = None"
    by (simp add: emptyStore_def)
  then have "\<forall>row. repoIndex emptyStore (owner (repoMeta ?o) @ ''/'' @ repo (repoMeta ?o)) = Some row
              \<longrightarrow> commit_hash row \<noteq> Some ''abc123''"
    by simp
  from writeToVectorStore_over_batch_size [OF h this len, of 1]
  have first: "snd (writeToVectorStore ?E ?o 1 emptyStore) = Inl ParameterMismatch"
    and same: "repoIndex ?st1 = repoIndex emptyStore"
    by simp_all
  from same none
  have "\<forall>row. repoIndex ?st1 (owner (repoMeta ?o) @ ''/'' @ repo (repoMeta ?o)) = Some row
              \<longrightarrow> commit_hash row \<noteq> Some ''abc123''"
    by simp
  from writeToVectorStore_over_batch_size [OF h this len, of 2]
  have "snd (writeToVectorStore ?E ?o 2 ?st1) = Inl ParameterMismatch"
    by simp
  with first show ?thesis by simp
qed

text \<open>
  C10. A write without a commit hash that completes is an upsert, and the \<^verbatim>\<open>repo_index\<close>
  row it leaves has \<^verbatim>\<open>chunkCount\<close> equal to the number of chunks passed to the call, while
  every stored chunk whose id is not among those of the call stays in the table; and there
  is such a write after which \<^verbatim>\<open>chunkCount\<close> is less than the number of chunks stored for
  the repository.
\<close>

theorem upsertChunks_chunk_count:
  "(presentHash (commitHash options) = None
      \<and> writeToVectorStore embedded options now st = (st', Inr res)
    \<longrightarrow> writeStrategy res = Upsert
        \<and> (\<exists>row. repoIndex st' (owner (repoMeta options) @ ''/'' @ repo (repoMeta options)) = Some row
                  \<and> chunk_count row = length embedded)
        \<and> (\<forall>old \<in> set (codeChunks st).
              rowId old \<notin> set (map rowId embedded) \<longrightarrow> old \<in> set (codeChunks st')))
   \<and> (\<exists>(es :: unit EmbeddedChunk list) opts t s s' r row.
         presentHash (commitHash opts) = None
         \<and> writeToVectorStore es opts t s = (s', Inr r)
         \<and> repoIndex s' (owner (repoMeta opts) @ ''/'' @ repo (repoMeta opts)) = Some row
         \<and> chunk_count row
             < length (filter (\<lambda>e. repoId (chunk e)
                                     = owner (repoMeta opts) @ ''/'' @ repo (repoMeta opts))
                         (codeChunks s')))"
proof (intro conjI impI)
  let ?rid = "owner (repoMeta options) @ ''/'' @ repo (repoMeta options)"
  assume a: "presentHash (commitHash options) = None
             \<and> writeToVectorStore embedded options now st = (st', Inr res)"
  then have up: "upsertChunks ?rid embedded options now st = (st', Inr res)"
    by (clarsimp simp: writeToVectorStore_def Let_def)
  obtain st2 out where b: "batchInsertChunks embedded True st = (st2, out)" by force
  with up obtain n where out: "out = Inr n"
    by (cases out) (simp_all add: upsertChunks_def)
  from batchInsertChunks_success [OF b [unfolded out]]
  have n: "n = length embedded"
    and ins: "insertRows True embedded [] (codeChunks st) = Inr (codeChunks st2)"
    by simp_all
  from up b out have res: "writeStrategy res = Upsert"
    and chunks: "codeChunks st' = codeChunks st2"
    and row: "\<exists>row. repoIndex st' ?rid = Some row \<and> chunk_count row = n"
    by (auto simp: upsertChunks_def Let_def split: option.splits)
  from res show "writeStrategy res = Upsert" .
  from row n show "\<exists>row. repoIndex st' ?rid = Some row \<and> chunk_count row = length embedded"
    by simp
  from ins chunks
  show "\<forall>old \<in> set (codeChunks st).
          rowId old \<notin> set (map rowId embedded) \<longrightarrow> old \<in> set (codeChunks st')"
    by (auto dest: insertRows_keeps_others)
next
  let ?st = "\<lparr>repoIndex = [''o/r'' \<mapsto> \<lparr>commit_hash = None, default_branch = ''main'',
                 size_kb = 12, file_count = 1, chunk_count = 2,
                 embedding_model = ''text-embedding-004'', updated_at = 3\<rparr>],
              codeChunks = [sampleChunk 0 ''old'', sampleChunk 1 ''old'']\<rparr>"
  let ?w = "writeToVectorStore [sampleChunk 0 ''new''] (sampleOptions None) 7 ?st"
  have "snd ?w = Inr \<lparr>resultRepoId = ''o/r'', writeStrategy = Upsert, chunksWritten = 1,
                      chunksDeleted = 0\<rparr>"
    by code_simp
  then have w: "?w = (fst ?w, Inr \<lparr>resultRepoId = ''o/r'', writeStrategy = Upsert,
                                   chunksWritten = 1, chunksDeleted = 0\<rparr>)"
    by (simp add: prod_eq_iff)
  have h: "presentHash (commitHash (sampleOptions None)) = None"
    by (simp add: sampleOptions_def presentHash_def)
  have row: "repoIndex (fst ?w) ''o/r''
               = Some \<lparr>commit_hash = None, default_branch = ''main'', size_kb = 12, file_count = 1,
                       chunk_count = 1, embedding_model = ''text-embedding-004'', updated_at = 7\<rparr>"
    by code_simp
  have cnt: "length (filter (\<lambda>e. repoId (chunk e) = ''o/r'') (codeChunks (fst ?w))) = 2"
    by code_simp
  have rid: "owner (repoMeta (sampleOptions None)) @ ''/'' @ repo (repoMeta (sampleOptions None))
               = ''o/r''"
    by (simp add: sampleOptions_def)
  show "\<exists>(es :: unit EmbeddedChunk list) opts t s s' r row.
         presentHash (commitHash opts) = None
         \<and> writeToVectorStore es opts t s = (s', Inr r)
         \<and> repoIndex s' (owner (repoMeta opts) @ ''/'' @ repo (repoMeta opts)) = Some row
         \<and> chunk_count row
             < length (filter (\<lambda>e. repoId (chunk e)
                                     = owner (repoMeta opts) @ ''/'' @ repo (repoMeta opts))
                         (codeChunks s'))"
    apply (rule exI [of _ "[sampleChunk 0 ''new'']"])
    apply (rule exI [of _ "sampleOptions None"])
    apply (rule exI [of _ 7])
    apply (rule exI [of _ ?st])
    apply (rule exI [of _ "fst ?w"])
    apply (rule exI [of _ "\<lparr>resultRepoId = ''o/r'', writeStrategy = Upsert, chunksWritten = 1,
                            chunksDeleted = 0\<rparr>"])
    apply (rule exI [of _ "\<lparr>commit_hash = None, default_branch = ''main'', size_kb = 12,
                            file_count = 1, chunk_count = 1,
                            embedding_model = ''text-embedding-004'', updated_at = 7\<rparr>"])
    using h w row cnt rid apply simp
    done
qed

theorem upsertChunks_chunk_count_witness:
  "(\<exists>row. repoIndex
            (fst (writeToVectorStore [sampleChunk 0 ''new''] (sampleOptions None) 7
               \<lparr>repoIndex = [''o/r'' \<mapsto> \<lparr>commit_hash = None, default_branch = ''main'',
                    size_kb = 12, file_count = 1, chunk_count = 2,
                    embedding_model = ''text-embedding-004'', updated_at = 3\<rparr>],
                codeChunks = [sampleChunk 0 ''old'', sampleChunk 1 ''old'']\<rparr>)) ''o/r'' = Some row
          \<and> chunk_count row = 1)
   \<and> sampleChunk 1 ''old''
       \<in> set (codeChunks
            (fst (writeToVectorStore [sampleChunk 0 ''new''] (sampleOptions None) 7
               \<lparr>repoIndex = [''o/r'' \<mapsto> \<lparr>commit_hash = None, default_branch = ''main'',
                    size_kb = 12, file_count = 1, chunk_count = 2,
                    embedding_model = ''text-embedding-004'', updated_at = 3\<rparr>],
                codeChunks = [sampleChunk 0 ''old'', sampleChunk 1 ''old'']\<rparr>)))
   \<and> length (filter (\<lambda>e. repoId (chunk e) = ''o/r'')
        (codeChunks
            (fst (writeToVectorStore [sampleChunk 0 ''new''] (sampleOptions None) 7
               \<lparr>repoIndex = [''o/r'' \<mapsto> \<lparr>commit_hash = None, default_branch = ''main'',
                    size_kb = 12, file_count = 1, chunk_count = 2,
                    embedding_model = ''text-embedding-004'', updated_at = 3\<rparr>],
                codeChunks = [sampleChunk 0 ''old'', sampleChunk 1 ''old'']\<rparr>)))) = 2"
proof -
  let ?st = "\<lparr>repoIndex = [''o/r'' \<mapsto> \<lparr>commit_hash = None, default_branch = ''main'',
                 size_kb = 12, file_count = 1, chunk_count = 2,
                 embedding_model = ''text-embedding-004'', updated_at = 3\<rparr>],
              codeChunks = [sampleChunk 0 ''old'', sampleChunk 1 ''old'']\<rparr>"
  let ?w = "writeToVectorStore [sampleChunk 0 ''new''] (sampleOptions None) 7 ?st"
  have "snd ?w = Inr \<lparr>resultRepoId = ''o/r'', writeStrategy = Upsert, chunksWritten = 1,
                      chunksDeleted = 0\<rparr>"
    by code_simp
  then have w: "?w = (fst ?w, Inr \<lparr>resultRepoId = ''o/r'', writeStrategy = Upsert,
                                   chunksWritten = 1, chunksDeleted = 0\<rparr>)"
    by (simp add: prod_eq_iff)
  have h: "presentHash (commitHash (sampleOptions None)) = None"
    by (simp add: sampleOptions_def presentHash_def)
  have rid: "owner (repoMeta (sampleOptions None)) @ ''/'' @ repo (repoMeta (sampleOptions None))
               = ''o/r''"
    by (simp add: sampleOptions_def)
  have other: "rowId (sampleChunk 1 ''old'') \<notin> set (map rowId [sampleChunk 0 ''new''])"
    by code_simp
  have cnt: "length (filter (\<lambda>e. repoId (chunk e) = ''o/r'') (codeChunks (fst ?w))) = 2"
    by code_simp
  from upsertChunks_chunk_count [of "sampleOptions None" "[sampleChunk 0 ''new'']" 7 ?st "fst ?w"
      "\<lparr>resultRepoId = ''o/r'', writeStrategy = Upsert, chunksWritten = 1, chunksDeleted = 0\<rparr>"]
    h w
  have "(\<exists>row. repoIndex (fst ?w) ''o/r'' = Some row \<and> chunk_count row = 1)"
    and "\<forall>old \<in> set (codeChunks ?st).
           rowId old \<notin> set (map rowId [sampleChunk 0 ''new'']) \<longrightarrow> old \<in> set (codeChunks (fst ?w))"
    unfolding rid by simp_all
  with other cnt show ?thesis by simp
qed

section \<open>Properties of the URL parser\<close>

lemma prepend_Nil: "prepend [] m = m"
  by (simp add: prepend_def split: option.splits)

lemma prepend_append: "prepend (v @ w) m = prepend v (prepend w m)"
  by (simp add: prepend_def split: option.splits)

lemma rx_search_first:
  "rx_search re s =
     (case first_match re s [] of
        Some (rest, c) \<Rightarrow> Some ([], rest, c)
      | None \<Rightarrow> (case s of [] \<Rightarrow> None | x # xs \<Rightarrow> prepend [x] (rx_search re xs)))"
  by (cases s) (auto simp: first_match_def prepend_def split: list.splits option.splits)

lemma rx_search_skip:
  "\<forall>x \<in> set w. \<forall>t. first_match re (x # t) [] = None
   \<Longrightarrow> rx_search re (w @ s) = prepend w (rx_search re s)"
proof (induction w)
  case Nil
  then show ?case by (simp add: prepend_Nil)
next
  case (Cons x w)
  then have "first_match re (x # w @ s) [] = None" by simp
  then have "rx_search re ((x # w) @ s) = prepend [x] (rx_search re (w @ s))"
    by (subst rx_search_first) simp
  with Cons show ?case
    using prepend_append [of "[x]" w] by simp
qed

lemma rx_search_sound:
  "rx_search re s = Some (pre, rest, c)
   \<Longrightarrow> \<exists>s'. s = pre @ s' \<and> (rest, c) \<in> set (rx_match re s' [])"
proof (induction s arbitrary: pre)
  case Nil
  then show ?case by (auto split: list.splits)
next
  case (Cons x xs)
  show ?case
  proof (cases "rx_match re (x # xs) []")
    case Nil
    with Cons.prems obtain pre' where "rx_search re xs = Some (pre', rest, c)" "pre = x # pre'"
      by (auto split: option.splits)
    with Cons.IH [of pre'] show ?thesis by auto
  next
    case (Cons m ms)
    with Cons.prems have "pre = []" "m = (rest, c)" by (auto split: prod.splits)
    with Cons show ?thesis by auto
  qed
qed

lemma first_match_Seq:
  "first_match r1 s c = Some (s1, c1) \<Longrightarrow> first_match r2 s1 c1 = Some y
   \<Longrightarrow> first_match (Seq r1 r2) s c = Some y"
  by (auto simp: first_match_def split: list.splits)

lemma first_match_Seq_None:
  "first_match r1 s c = None \<Longrightarrow> first_match (Seq r1 r2) s c = None"
  by (auto simp: first_match_def split: list.splits)

lemma first_match_Lit:
  "first_match (Lit l) (l @ s) c = Some (s, c)"
  by (simp add: first_match_def)

lemma first_match_Lit_None:
  "take (length l) s \<noteq> l \<Longrightarrow> first_match (Lit l) s c = None"
  by (simp add: first_match_def)

lemma rev_upt_Suc: "0 < m \<Longrightarrow> rev [1 ..< Suc m] = m # rev [1 ..< m]"
  by simp

lemma first_match_Plus:
  assumes "takeWhile (in_class k) s = w" and "w \<noteq> []"
  shows "first_match (Plus k) s c = Some (drop (length w) s, c)"
  using assms by (cases w) (auto simp: first_match_def)

lemma first_match_Grp:
  "first_match r s c = Some (s', c')
   \<Longrightarrow> first_match (Grp n r) s c = Some (s', (n, take (length s - length s') s) # c')"
  by (auto simp: first_match_def split: list.splits)

lemma takeWhile_not_slash:
  "CHR ''/'' \<notin> set w \<Longrightarrow> takeWhile (in_class (CNot CHR ''/'')) (w @ CHR ''/'' # s) = w"
  by (induction w) auto

lemma takeWhile_not_slash_end:
  "CHR ''/'' \<notin> set w \<Longrightarrow> takeWhile (in_class (CNot CHR ''/'')) w = w"
  by (induction w) auto

lemma first_match_repo:
  assumes "o' \<noteq> []" "CHR ''/'' \<notin> set o'" "r \<noteq> []" "CHR ''/'' \<notin> set r"
  shows "first_match GITHUB_REPO_RE (''github.com/'' @ o' @ ''/'' @ r) []
           = Some ([], [(2, r), (1, o')])"
proof -
  let ?N = "Plus (CNot CHR ''/'')"
  have g1: "first_match (Grp 1 ?N) (o' @ ''/'' @ r) [] = Some (''/'' @ r, [(1, o')])"
    using first_match_Grp [OF first_match_Plus [OF takeWhile_not_slash [OF assms(2)] assms(1)], of 1 r "[]"]
    by simp
  have g2: "first_match (Grp 2 ?N) r [(1, o')] = Some ([], [(2, r), (1, o')])"
    using first_match_Grp [OF first_match_Plus [OF takeWhile_not_slash_end [OF assms(4)] assms(3)], of 2 "[(1, o')]"]
    by simp
  have e: "first_match (Lit []) [] [(2, r), (1, o')] = Some ([], [(2, r), (1, o')])"
    using first_match_Lit [of "[]" "[]"] by simp
  have l: "first_match (Lit ''/'') (''/'' @ r) [(1, o')] = Some (r, [(1, o')])"
    by (rule first_match_Lit)
  have "first_match (Seq (Grp 1 ?N) (Seq (Lit ''/'') (Seq (Grp 2 ?N) (Lit [])))) (o' @ ''/'' @ r) []
          = Some ([], [(2, r), (1, o')])"
    by (rule first_match_Seq [OF g1 first_match_Seq [OF l first_match_Seq [OF g2 e]]])
  with first_match_Lit [of "''github.com/''" "o' @ ''/'' @ r" "[]"] show ?thesis
    unfolding GITHUB_REPO_RE_def seqs_def
    using first_match_Seq by fastforce
qed

lemma first_match_repo_other:
  "x \<noteq> CHR ''g'' \<Longrightarrow> first_match GITHUB_REPO_RE (x # t) [] = None"
  by (simp add: GITHUB_REPO_RE_def seqs_def first_match_Seq_None first_match_Lit_None)

lemma rx_search_repo_https:
  assumes "o' \<noteq> []" "CHR ''/'' \<notin> set o'" "r \<noteq> []" "CHR ''/'' \<notin> set r"
  shows "rx_search GITHUB_REPO_RE (''https://github.com/'' @ o' @ ''/'' @ r)
           = Some (''https://'', [], [(2, r), (1, o')])"
proof -
  have skip: "\<forall>x \<in> set ''https://''. \<forall>t. first_match GITHUB_REPO_RE (x # t) [] = None"
    by (auto intro: first_match_repo_other)
  have here: "rx_search GITHUB_REPO_RE (''github.com/'' @ o' @ ''/'' @ r) = Some ([], [], [(2, r), (1, o')])"
    by (subst rx_search_first) (simp only: first_match_repo [OF assms] option.case prod.case)
  have "rx_search GITHUB_REPO_RE (''https://'' @ (''github.com/'' @ o' @ ''/'' @ r))
          = prepend ''https://'' (rx_search GITHUB_REPO_RE (''github.com/'' @ o' @ ''/'' @ r))"
    using skip by (rule rx_search_skip)
  with here show ?thesis by (simp add: prepend_def)
qed

lemma first_match_git:
  "first_match GIT_SUFFIX_RE s [] = (if s = ''.git'' then Some ([], []) else None)"
proof (cases "s = ''.git''")
  case True
  then show ?thesis by (simp add: first_match_def GIT_SUFFIX_RE_def seqs_def)
next
  case False
  have "\<not> (take 4 s = ''.git'' \<and> drop 4 s = [])"
  proof
    assume "take 4 s = ''.git'' \<and> drop 4 s = []"
    then have "take 4 s @ drop 4 s = ''.git''" by simp
    with False show False by simp
  qed
  with False show ?thesis
    by (auto simp: first_match_def GIT_SUFFIX_RE_def seqs_def)
qed

lemma endsWith_Cons:
  "suf \<noteq> [] \<Longrightarrow> endsWith suf (x # xs) \<longleftrightarrow> x # xs = suf \<or> endsWith suf xs"
proof -
  assume ne: "suf \<noteq> []"
  show ?thesis
  proof (cases "length suf \<le> length xs")
    case True
    then have "Suc (length xs) - length suf = Suc (length xs - length suf)" by simp
    with True ne show ?thesis by (auto simp: endsWith_def)
  next
    case False
    then show ?thesis by (auto simp: endsWith_def)
  qed
qed

lemma rx_search_git:
  "rx_search GIT_SUFFIX_RE s
     = (if endsWith ''.git'' s then Some (take (length s - 4) s, [], []) else None)"
proof (induction s)
  case Nil
  then show ?case
    by (subst rx_search_first) (simp add: first_match_git endsWith_def)
next
  case (Cons x xs)
  show ?case
  proof (cases "x # xs = ''.git''")
    case True
    then have "first_match GIT_SUFFIX_RE (x # xs) [] = Some ([], [])"
      by (simp only: first_match_git refl if_True)
    then have "rx_search GIT_SUFFIX_RE (x # xs) = Some ([], [], [])"
      by (subst rx_search_first) (simp only: option.case prod.case)
    with True show ?thesis by (simp add: endsWith_def)
  next
    case False
    then have "first_match GIT_SUFFIX_RE (x # xs) [] = None"
      by (simp only: first_match_git if_False)
    then have step: "rx_search GIT_SUFFIX_RE (x # xs) = prepend [x] (rx_search GIT_SUFFIX_RE xs)"
      by (subst rx_search_first) (simp only: option.case list.case)
    from False have e: "endsWith ''.git'' (x # xs) \<longleftrightarrow> endsWith ''.git'' xs"
      using endsWith_Cons [of "''.git''" x xs] by blast
    show ?thesis
    proof (cases "endsWith ''.git'' xs")
      case True
      then have "4 \<le> length xs" by (simp add: endsWith_def)
      then have "length (x # xs) - 4 = Suc (length xs - 4)" by simp
      then have "take (length (x # xs) - 4) (x # xs) = x # take (length xs - 4) xs"
        by (simp only: take_Suc_Cons)
      with True step e Cons show ?thesis by (simp add: prepend_def)
    next
      case False
      with step e Cons show ?thesis by (simp add: prepend_def)
    qed
  qed
qed

lemma remove_git_suffix: "js_remove_first GIT_SUFFIX_RE (p @ ''.git'') = p"
  by (simp add: js_remove_first_def rx_search_git endsWith_def)

lemma remove_git_none: "\<not> endsWith ''.git'' s \<Longrightarrow> js_remove_first GIT_SUFFIX_RE s = s"
  by (simp add: js_remove_first_def rx_search_git)

lemma remove_git_prefix: "\<exists>t. s = js_remove_first GIT_SUFFIX_RE s @ t"
proof (cases "endsWith ''.git'' s")
  case True
  then have "js_remove_first GIT_SUFFIX_RE s = take (length s - 4) s"
    by (simp add: js_remove_first_def rx_search_git)
  then show ?thesis by (metis append_take_drop_id)
next
  case False
  then show ?thesis by (simp add: remove_git_none)
qed

declare rx_search.simps [simp del]

lemma first_match_Star:
  "first_match (Star k) s c = Some (drop (length (takeWhile (in_class k) s)) s, c)"
  by (simp add: first_match_def)

lemma first_match_Eol: "first_match Eol [] c = Some ([], c)"
  by (simp add: first_match_def)

lemma first_match_tree_here:
  assumes "list_all (in_class CDot) ref"
  shows "first_match TREE_SUFFIX_RE (''/tree/'' @ ref) [] = Some ([], [])"
proof -
  from assms have "\<forall>x \<in> set ref. in_class CDot x"
    by (simp only: list_all_iff)
  then have tw: "takeWhile (in_class CDot) ref = ref"
    by (simp only: takeWhile_eq_all_conv)
  have "first_match (Star CDot) ref []
          = Some (drop (length (takeWhile (in_class CDot) ref)) ref, [])"
    by (rule first_match_Star)
  then have star: "first_match (Star CDot) ref [] = Some ([], [])"
    unfolding tw by simp
  have e: "first_match (Lit []) [] [] = Some ([], [])"
    using first_match_Lit [of "[]" "[]" "[]"] by simp
  have "first_match (Seq (Star CDot) (Seq Eol (Lit []))) ref [] = Some ([], [])"
    by (rule first_match_Seq [OF star first_match_Seq [OF first_match_Eol e]])
  with first_match_Lit [of "''/tree/''" ref "[]"] show ?thesis
    unfolding TREE_SUFFIX_RE_def seqs_def
    using first_match_Seq by fastforce
qed

lemma first_match_tree_other:
  "x \<noteq> CHR ''/'' \<Longrightarrow> first_match TREE_SUFFIX_RE (x # t) [] = None"
  by (simp add: TREE_SUFFIX_RE_def seqs_def first_match_Seq_None first_match_Lit_None)

lemma first_match_tree_slash:
  assumes "take 5 t \<noteq> ''tree/''"
  shows "first_match TREE_SUFFIX_RE (CHR ''/'' # t) [] = None"
proof -
  have "take (length ''/tree/'') (CHR ''/'' # t) = CHR ''/'' # take 5 t"
    by (simp add: eval_nat_numeral)
  with assms have "take (length ''/tree/'') (CHR ''/'' # t) \<noteq> ''/tree/''" by simp
  then have "first_match (Lit ''/tree/'') (CHR ''/'' # t) [] = None"
    by (rule first_match_Lit_None)
  then show ?thesis
    by (simp add: TREE_SUFFIX_RE_def seqs_def first_match_Seq_None)
qed

lemma first_match_tree_Nil: "first_match TREE_SUFFIX_RE [] [] = None"
  by (simp add: TREE_SUFFIX_RE_def seqs_def first_match_Seq_None first_match_Lit_None)

lemma take5_segment:
  assumes "CHR ''/'' \<notin> set w" and "take 5 (w @ CHR ''/'' # y) = ''tree/''"
  shows "w = ''tree''"
proof -
  have "w @ CHR ''/'' # y = take 5 (w @ CHR ''/'' # y) @ drop 5 (w @ CHR ''/'' # y)"
    by (simp only: append_take_drop_id)
  then have "w @ CHR ''/'' # y = ''tree/'' @ drop 5 (w @ CHR ''/'' # y)"
    by (simp only: assms(2))
  then have "w @ CHR ''/'' # y = ''tree'' @ CHR ''/'' # drop 5 (w @ CHR ''/'' # y)"
    by simp
  then have "takeWhile (in_class (CNot CHR ''/'')) (w @ CHR ''/'' # y)
               = takeWhile (in_class (CNot CHR ''/'')) (''tree'' @ CHR ''/'' # drop 5 (w @ CHR ''/'' # y))"
    by (rule arg_cong)
  moreover have "takeWhile (in_class (CNot CHR ''/'')) (w @ CHR ''/'' # y) = w"
    using assms(1) by (rule takeWhile_not_slash)
  moreover have "takeWhile (in_class (CNot CHR ''/'')) (''tree'' @ CHR ''/'' # drop 5 (w @ CHR ''/'' # y))
                   = ''tree''"
    by (rule takeWhile_not_slash) simp
  ultimately show ?thesis by (simp only:)
qed

lemma take5_last:
  assumes "CHR ''/'' \<notin> set w"
  shows "take 5 w \<noteq> ''tree/''"
proof
  assume "take 5 w = ''tree/''"
  then have "CHR ''/'' \<in> set (take 5 w)" by simp
  with assms show False by (meson in_set_takeD)
qed

lemma prepend_Cons: "prepend [x] (prepend w m) = prepend (x # w) m"
  using prepend_append [of "[x]" w m] by simp

lemma rx_search_tree_segment:
  assumes "CHR ''/'' \<notin> set w" and "w \<noteq> ''tree''"
  shows "rx_search TREE_SUFFIX_RE (CHR ''/'' # w @ CHR ''/'' # y)
           = prepend (CHR ''/'' # w) (rx_search TREE_SUFFIX_RE (CHR ''/'' # y))"
proof -
  from assms have "take 5 (w @ CHR ''/'' # y) \<noteq> ''tree/''"
    using take5_segment by blast
  then have "first_match TREE_SUFFIX_RE (CHR ''/'' # w @ CHR ''/'' # y) [] = None"
    by (rule first_match_tree_slash)
  then have "rx_search TREE_SUFFIX_RE (CHR ''/'' # w @ CHR ''/'' # y)
               = prepend ''/'' (rx_search TREE_SUFFIX_RE (w @ CHR ''/'' # y))"
    by (subst rx_search_first) (simp only: option.case list.case)
  moreover from assms(1)
  have "rx_search TREE_SUFFIX_RE (w @ CHR ''/'' # y) = prepend w (rx_search TREE_SUFFIX_RE (CHR ''/'' # y))"
    by (intro rx_search_skip) (auto intro: first_match_tree_other)
  ultimately show ?thesis by (simp only: prepend_Cons)
qed

lemma rx_search_tree_Nil: "rx_search TREE_SUFFIX_RE [] = None"
  by (subst rx_search_first) (simp only: first_match_tree_Nil option.case list.case)

lemma rx_search_tree_last:
  assumes "CHR ''/'' \<notin> set w"
  shows "rx_search TREE_SUFFIX_RE (CHR ''/'' # w) = None"
proof -
  from assms have "first_match TREE_SUFFIX_RE (CHR ''/'' # w) [] = None"
    by (intro first_match_tree_slash take5_last)
  then have "rx_search TREE_SUFFIX_RE (CHR ''/'' # w) = prepend ''/'' (rx_search TREE_SUFFIX_RE w)"
    by (subst rx_search_first) (simp only: option.case list.case)
  moreover from assms
  have "rx_search TREE_SUFFIX_RE (w @ []) = prepend w (rx_search TREE_SUFFIX_RE [])"
    by (intro rx_search_skip) (auto intro: first_match_tree_other)
  ultimately show ?thesis by (simp add: rx_search_tree_Nil prepend_def)
qed

lemma rx_search_tree_here:
  assumes "list_all (in_class CDot) ref"
  shows "rx_search TREE_SUFFIX_RE (CHR ''/'' # ''tree/'' @ ref) = Some ([], [], [])"
  using first_match_tree_here [OF assms]
  by (subst rx_search_first) simp

lemma rx_search_tree_scheme:
  "rx_search TREE_SUFFIX_RE (''https://github.com'' @ t)
     = prepend ''https://github.com'' (rx_search TREE_SUFFIX_RE t)"
proof -
  have a: "rx_search TREE_SUFFIX_RE (''https:'' @ (''//github.com'' @ t))
             = prepend ''https:'' (rx_search TREE_SUFFIX_RE (''//github.com'' @ t))"
    by (intro rx_search_skip) (auto intro: first_match_tree_other)
  have b: "rx_search TREE_SUFFIX_RE (CHR ''/'' # [] @ CHR ''/'' # (''github.com'' @ t))
             = prepend (CHR ''/'' # []) (rx_search TREE_SUFFIX_RE (CHR ''/'' # (''github.com'' @ t)))"
    by (rule rx_search_tree_segment) simp_all
  have "take 5 (''github.com'' @ t) \<noteq> ''tree/''" by simp
  then have "first_match TREE_SUFFIX_RE (CHR ''/'' # ''github.com'' @ t) [] = None"
    by (rule first_match_tree_slash)
  then have c: "rx_search TREE_SUFFIX_RE (CHR ''/'' # ''github.com'' @ t)
                  = prepend ''/'' (rx_search TREE_SUFFIX_RE (''github.com'' @ t))"
    by (subst rx_search_first) (simp only: option.case list.case)
  have d: "rx_search TREE_SUFFIX_RE (''github.com'' @ t)
             = prepend ''github.com'' (rx_search TREE_SUFFIX_RE t)"
    by (intro rx_search_skip) (auto intro: first_match_tree_other)
  from a b c d show ?thesis
    by (simp add: prepend_def split: option.splits)
qed

lemma remove_tree_base:
  assumes "CHR ''/'' \<notin> set o'" "o' \<noteq> ''tree''" "CHR ''/'' \<notin> set r"
  shows "js_remove_first TREE_SUFFIX_RE (''https://github.com/'' @ o' @ ''/'' @ r)
           = ''https://github.com/'' @ o' @ ''/'' @ r"
proof -
  have "rx_search TREE_SUFFIX_RE (CHR ''/'' # o' @ CHR ''/'' # r) = None"
    using rx_search_tree_segment [OF assms(1,2), of r] rx_search_tree_last [OF assms(3)]
    by (simp add: prepend_def)
  then have "rx_search TREE_SUFFIX_RE (''https://github.com'' @ (CHR ''/'' # o' @ CHR ''/'' # r)) = None"
    by (simp only: rx_search_tree_scheme) (simp add: prepend_def)
  then show ?thesis by (simp add: js_remove_first_def)
qed

lemma remove_tree_suffix:
  assumes "CHR ''/'' \<notin> set o'" "o' \<noteq> ''tree''" "CHR ''/'' \<notin> set r" "r \<noteq> ''tree''"
    and "list_all (in_class CDot) ref"
  shows "js_remove_first TREE_SUFFIX_RE (''https://github.com/'' @ o' @ ''/'' @ r @ ''/tree/'' @ ref)
           = ''https://github.com/'' @ o' @ ''/'' @ r"
proof -
  have "rx_search TREE_SUFFIX_RE (CHR ''/'' # o' @ CHR ''/'' # (r @ CHR ''/'' # ''tree/'' @ ref))
          = Some (CHR ''/'' # o' @ CHR ''/'' # r, [], [])"
    using rx_search_tree_segment [OF assms(1,2), of "r @ CHR ''/'' # ''tree/'' @ ref"]
      rx_search_tree_segment [OF assms(3,4), of "''tree/'' @ ref"]
      rx_search_tree_here [OF assms(5)]
    by (simp add: prepend_def)
  then have "rx_search TREE_SUFFIX_RE
               (''https://github.com'' @ (CHR ''/'' # o' @ CHR ''/'' # (r @ CHR ''/'' # ''tree/'' @ ref)))
             = Some (''https://github.com'' @ CHR ''/'' # o' @ CHR ''/'' # r, [], [])"
    by (simp only: rx_search_tree_scheme) (simp add: prepend_def)
  then show ?thesis by (simp add: js_remove_first_def)
qed

lemma endsWith_iff: "endsWith suf s \<longleftrightarrow> (\<exists>q. s = q @ suf)"
proof
  assume "endsWith suf s"
  then have "s = take (length s - length suf) s @ suf"
    by (metis append_take_drop_id endsWith_def)
  then show "\<exists>q. s = q @ suf" ..
next
  assume "\<exists>q. s = q @ suf"
  then show "endsWith suf s" by (auto simp: endsWith_def)
qed

lemma git_suffix_after_slash:
  assumes "endsWith ''.git'' (a @ CHR ''/'' # t)"
  shows "\<exists>q. t = q @ ''.git''"
proof -
  from assms obtain q where "a @ CHR ''/'' # t = q @ ''.git''"
    by (auto simp: endsWith_iff)
  then obtain us where
    "(a = q @ us \<and> us @ CHR ''/'' # t = ''.git'') \<or> (a @ us = q \<and> CHR ''/'' # t = us @ ''.git'')"
    by (auto simp: append_eq_append_conv2)
  then show ?thesis
  proof
    assume "a = q @ us \<and> us @ CHR ''/'' # t = ''.git''"
    then have "CHR ''/'' \<in> set ''.git''" by (metis in_set_conv_decomp)
    then show ?thesis by simp
  next
    assume "a @ us = q \<and> CHR ''/'' # t = us @ ''.git''"
    then show ?thesis by (cases us) auto
  qed
qed

lemma parse_base:
  assumes "o' \<noteq> []" "CHR ''/'' \<notin> set o'" "o' \<noteq> ''tree''"
    and "r \<noteq> []" "CHR ''/'' \<notin> set r" "\<not> endsWith ''.git'' r"
  shows "parseGitHubUrl (''https://github.com/'' @ o' @ ''/'' @ r) = Inr (o', r)"
proof -
  let ?base = "''https://github.com/'' @ o' @ ''/'' @ r"
  have "\<not> endsWith ''.git'' ((''https://github.com/'' @ o') @ CHR ''/'' # r)"
    using git_suffix_after_slash [of "''https://github.com/'' @ o'" r] assms(6)
    by (auto simp: endsWith_iff)
  then have "js_remove_first GIT_SUFFIX_RE ?base = ?base"
    using remove_git_none [of ?base] by simp
  moreover have "js_remove_first TREE_SUFFIX_RE ?base = ?base"
    by (rule remove_tree_base [OF assms(2,3,5)])
  ultimately show ?thesis
    using rx_search_repo_https [OF assms(1,2,4,5)]
    by (simp add: parseGitHubUrl_def Let_def group_def)
qed

lemma parse_git:
  assumes "o' \<noteq> []" "CHR ''/'' \<notin> set o'" "o' \<noteq> ''tree''"
    and "r \<noteq> []" "CHR ''/'' \<notin> set r"
  shows "parseGitHubUrl (''https://github.com/'' @ o' @ ''/'' @ r @ ''.git'') = Inr (o', r)"
proof -
  let ?base = "''https://github.com/'' @ o' @ ''/'' @ r"
  have "js_remove_first GIT_SUFFIX_RE (?base @ ''.git'') = ?base"
    by (rule remove_git_suffix)
  moreover have "js_remove_first TREE_SUFFIX_RE ?base = ?base"
    by (rule remove_tree_base [OF assms(2,3,5)])
  ultimately show ?thesis
    using rx_search_repo_https [OF assms(1,2,4,5)]
    by (simp add: parseGitHubUrl_def Let_def group_def)
qed

lemma parse_tree:
  assumes "o' \<noteq> []" "CHR ''/'' \<notin> set o'" "o' \<noteq> ''tree''"
    and "r \<noteq> []" "CHR ''/'' \<notin> set r" "r \<noteq> ''tree''"
    and "list_all (in_class CDot) ref"
  shows "parseGitHubUrl (''https://github.com/'' @ o' @ ''/'' @ r @ ''/tree/'' @ ref) = Inr (o', r)"
proof -
  let ?base = "''https://github.com/'' @ o' @ ''/'' @ r"
  let ?url = "?base @ ''/tree/'' @ ref"
  have "\<exists>ref'. js_remove_first GIT_SUFFIX_RE ?url = ?base @ ''/tree/'' @ ref'
           \<and> list_all (in_class CDot) ref'"
  proof (cases "endsWith ''.git'' ?url")
    case False
    then have "js_remove_first GIT_SUFFIX_RE ?url = ?url" by (rule remove_git_none)
    with assms(7) show ?thesis by auto
  next
    case True
    then have "endsWith ''.git'' ((?base @ ''/tree'') @ CHR ''/'' # ref)" by simp
    from git_suffix_after_slash [OF this] obtain q where q: "ref = q @ ''.git''" by blast
    then have "?url = (?base @ ''/tree/'' @ q) @ ''.git''" by simp
    then have "js_remove_first GIT_SUFFIX_RE ?url = ?base @ ''/tree/'' @ q"
      by (simp only: remove_git_suffix)
    moreover from assms(7) q have "list_all (in_class CDot) q" by simp
    ultimately show ?thesis by blast
  qed
  then obtain ref' where c1: "js_remove_first GIT_SUFFIX_RE ?url = ?base @ ''/tree/'' @ ref'"
    and ok: "list_all (in_class CDot) ref'"
    by blast
  have "js_remove_first TREE_SUFFIX_RE (''https://github.com/'' @ o' @ ''/'' @ r @ ''/tree/'' @ ref') = ?base"
    by (rule remove_tree_suffix [OF assms(2,3,5,6) ok])
  with c1 have "js_remove_first TREE_SUFFIX_RE (js_remove_first GIT_SUFFIX_RE ?url) = ?base"
    by simp
  then show ?thesis
    using rx_search_repo_https [OF assms(1,2,4,5)]
    by (simp add: parseGitHubUrl_def Let_def group_def)
qed

lemma rx_match_Lit_sound: "(s', c') \<in> set (rx_match (Lit l) s c) \<Longrightarrow> s = l @ s'"
  by (auto split: if_splits) (metis append_take_drop_id)

lemma rx_match_Plus_sound:
  assumes "(s', c') \<in> set (rx_match (Plus k) s c)"
  shows "\<exists>w. s = w @ s' \<and> w \<noteq> [] \<and> (\<forall>x \<in> set w. in_class k x)"
proof -
  from assms obtain n where n: "1 \<le> n" "n \<le> length (takeWhile (in_class k) s)" and s': "s' = drop n s"
    by auto
  have len: "length (takeWhile (in_class k) s) \<le> length s" by (rule length_takeWhile_le)
  have "\<And>a b :: string. n \<le> length a \<Longrightarrow> take n (a @ b) = take n a"
    by simp
  from this [OF n(2), of "dropWhile (in_class k) s"] have "take n s = take n (takeWhile (in_class k) s)"
    by (simp only: takeWhile_dropWhile_id)
  then have "\<forall>x \<in> set (take n s). in_class k x"
    by (metis in_set_takeD set_takeWhileD)
  moreover from n len have "take n s \<noteq> []" by auto
  moreover from s' have "s = take n s @ s'" by simp
  ultimately show ?thesis by blast
qed

lemma rx_match_Grp_sound:
  "(s', c') \<in> set (rx_match (Grp n r) s c) \<Longrightarrow> \<exists>c''. (s', c'') \<in> set (rx_match r s c)"
  by auto

lemma rx_match_Seq_sound:
  "(s', c') \<in> set (rx_match (Seq r1 r2) s c)
   \<Longrightarrow> \<exists>s1 c1. (s1, c1) \<in> set (rx_match r1 s c) \<and> (s', c') \<in> set (rx_match r2 s1 c1)"
  by auto

lemma rx_match_Eol_sound: "(s', c') \<in> set (rx_match Eol s c) \<Longrightarrow> s' = []"
  by (auto split: if_splits)

lemma repo_match_sound:
  assumes "(rest, c) \<in> set (rx_match GITHUB_REPO_RE s [])"
  shows "\<exists>o' r. s = ''github.com/'' @ o' @ ''/'' @ r @ rest
           \<and> o' \<noteq> [] \<and> CHR ''/'' \<notin> set o' \<and> r \<noteq> [] \<and> CHR ''/'' \<notin> set r"
proof -
  let ?N = "Plus (CNot CHR ''/'')"
  from assms have "(rest, c) \<in> set (rx_match (Seq (Lit ''github.com/'')
      (Seq (Grp 1 ?N) (Seq (Lit ''/'') (Seq (Grp 2 ?N) (Lit []))))) s [])"
    by (simp add: GITHUB_REPO_RE_def seqs_def)
  from rx_match_Seq_sound [OF this] obtain s1 c1 where
    a1: "(s1, c1) \<in> set (rx_match (Lit ''github.com/'') s [])"
    and b1: "(rest, c) \<in> set (rx_match (Seq (Grp 1 ?N) (Seq (Lit ''/'') (Seq (Grp 2 ?N) (Lit [])))) s1 c1)"
    by blast
  from rx_match_Seq_sound [OF b1] obtain s2 c2 where
    a2: "(s2, c2) \<in> set (rx_match (Grp 1 ?N) s1 c1)"
    and b2: "(rest, c) \<in> set (rx_match (Seq (Lit ''/'') (Seq (Grp 2 ?N) (Lit []))) s2 c2)"
    by blast
  from rx_match_Seq_sound [OF b2] obtain s3 c3 where
    a3: "(s3, c3) \<in> set (rx_match (Lit ''/'') s2 c2)"
    and b3: "(rest, c) \<in> set (rx_match (Seq (Grp 2 ?N) (Lit [])) s3 c3)"
    by blast
  from rx_match_Seq_sound [OF b3] obtain s4 c4 where
    a4: "(s4, c4) \<in> set (rx_match (Grp 2 ?N) s3 c3)"
    and b4: "(rest, c) \<in> set (rx_match (Lit []) s4 c4)"
    by blast
  from rx_match_Lit_sound [OF a1] have e1: "s = ''github.com/'' @ s1" .
  from rx_match_Grp_sound [OF a2] obtain c2' where "(s2, c2') \<in> set (rx_match ?N s1 c1)" by blast
  from rx_match_Plus_sound [OF this] obtain o' where
    e2: "s1 = o' @ s2" and o: "o' \<noteq> []" "\<forall>x \<in> set o'. in_class (CNot CHR ''/'') x"
    by blast
  from rx_match_Lit_sound [OF a3] have e3: "s2 = ''/'' @ s3" .
  from rx_match_Grp_sound [OF a4] obtain c4' where "(s4, c4') \<in> set (rx_match ?N s3 c3)" by blast
  from rx_match_Plus_sound [OF this] obtain r where
    e4: "s3 = r @ s4" and r: "r \<noteq> []" "\<forall>x \<in> set r. in_class (CNot CHR ''/'') x"
    by blast
  from rx_match_Lit_sound [OF b4] have e5: "s4 = rest" by simp
  from e1 e2 e3 e4 e5 have "s = ''github.com/'' @ o' @ ''/'' @ r @ rest" by simp
  moreover from o(2) have "CHR ''/'' \<notin> set o'" by auto
  moreover from r(2) have "CHR ''/'' \<notin> set r" by auto
  ultimately show ?thesis using o(1) r(1) by blast
qed

lemma tree_match_rest:
  assumes "(rest, c) \<in> set (rx_match TREE_SUFFIX_RE s [])"
  shows "rest = []"
proof -
  from assms have "(rest, c) \<in> set (rx_match (Seq (Lit ''/tree/'')
      (Seq (Star CDot) (Seq Eol (Lit [])))) s [])"
    by (simp add: TREE_SUFFIX_RE_def seqs_def)
  from rx_match_Seq_sound [OF this] obtain s1 c1 where
    "(rest, c) \<in> set (rx_match (Seq (Star CDot) (Seq Eol (Lit []))) s1 c1)"
    by blast
  from rx_match_Seq_sound [OF this] obtain s2 c2 where
    "(rest, c) \<in> set (rx_match (Seq Eol (Lit [])) s2 c2)"
    by blast
  from rx_match_Seq_sound [OF this] obtain s3 c3 where
    a: "(s3, c3) \<in> set (rx_match Eol s2 c2)" and b: "(rest, c) \<in> set (rx_match (Lit []) s3 c3)"
    by blast
  from rx_match_Eol_sound [OF a] rx_match_Lit_sound [OF b] show ?thesis by simp
qed

lemma remove_tree_prefix: "\<exists>t. s = js_remove_first TREE_SUFFIX_RE s @ t"
proof (cases "rx_search TREE_SUFFIX_RE s")
  case None
  then show ?thesis by (simp add: js_remove_first_def)
next
  case (Some m)
  obtain pre rest c where m: "m = (pre, rest, c)" by (cases m)
  from rx_search_sound [OF Some [unfolded m]] obtain s' where
    s: "s = pre @ s'" and "(rest, c) \<in> set (rx_match TREE_SUFFIX_RE s' [])"
    by blast
  then have "rest = []" using tree_match_rest by blast
  with Some m have "js_remove_first TREE_SUFFIX_RE s = pre" by (simp add: js_remove_first_def)
  with s show ?thesis by auto
qed

lemma hasRepoForm_extend: "hasRepoForm s \<Longrightarrow> hasRepoForm (s @ t)"
proof -
  assume "hasRepoForm s"
  then obtain pre o' r post where "s = pre @ ''github.com/'' @ o' @ ''/'' @ r @ post"
    "o' \<noteq> []" "CHR ''/'' \<notin> set o'" "r \<noteq> []" "CHR ''/'' \<notin> set r"
    unfolding hasRepoForm_def by blast
  then have "s @ t = pre @ ''github.com/'' @ o' @ ''/'' @ r @ (post @ t)
             \<and> o' \<noteq> [] \<and> CHR ''/'' \<notin> set o' \<and> r \<noteq> [] \<and> CHR ''/'' \<notin> set r"
    by simp
  then show "hasRepoForm (s @ t)" unfolding hasRepoForm_def by blast
qed

lemma parse_no_form:
  assumes "\<not> hasRepoForm url"
  shows "parseGitHubUrl url = Inl (InvalidGitHubUrl url)"
proof -
  let ?cleaned = "js_remove_first TREE_SUFFIX_RE (js_remove_first GIT_SUFFIX_RE url)"
  have "rx_search GITHUB_REPO_RE ?cleaned = None"
  proof (rule ccontr)
    assume "rx_search GITHUB_REPO_RE ?cleaned \<noteq> None"
    then obtain pre rest c where "rx_search GITHUB_REPO_RE ?cleaned = Some (pre, rest, c)"
      by auto
    from rx_search_sound [OF this] obtain s' where
      cl: "?cleaned = pre @ s'" and "(rest, c) \<in> set (rx_match GITHUB_REPO_RE s' [])"
      by blast
    from repo_match_sound [OF this(2)] cl have "hasRepoForm ?cleaned"
      unfolding hasRepoForm_def by blast
    moreover obtain t1 where "js_remove_first GIT_SUFFIX_RE url = ?cleaned @ t1"
      using remove_tree_prefix [of "js_remove_first GIT_SUFFIX_RE url"] by blast
    moreover obtain t2 where "url = js_remove_first GIT_SUFFIX_RE url @ t2"
      using remove_git_prefix [of url] by blast
    ultimately have "hasRepoForm url"
      using hasRepoForm_extend by metis
    with assms show False by simp
  qed
  then show ?thesis by (simp add: parseGitHubUrl_def Let_def)
qed

lemma isAlnum_slash: "\<not> isAlnum CHR ''/''"
  by (simp add: isAlnum_def)

lemma validOwner_plain: "validOwner o' \<Longrightarrow> o' \<noteq> [] \<and> CHR ''/'' \<notin> set o'"
  using isAlnum_slash by (auto simp: validOwner_def list_all_iff)

lemma validRepo_plain:
  "validRepo r \<Longrightarrow> r \<noteq> [] \<and> CHR ''/'' \<notin> set r \<and> \<not> endsWith ''.git'' r"
  using isAlnum_slash by (auto simp: validRepo_def list_all_iff)

lemma not_a_url_no_form: "\<not> hasRepoForm ''not-a-url''"
proof
  assume "hasRepoForm ''not-a-url''"
  then obtain pre o' r post where e: "''not-a-url'' = pre @ ''github.com/'' @ o' @ ''/'' @ r @ post"
    unfolding hasRepoForm_def by blast
  have "CHR ''/'' \<in> set (pre @ ''github.com/'' @ o' @ ''/'' @ r @ post)"
    by simp
  then have "CHR ''/'' \<in> set ''not-a-url''"
    by (simp only: e [symmetric])
  then show False by simp
qed

text \<open>
  C8 (as amended). For every valid owner other than \<^verbatim>\<open>tree\<close> and every valid repository
  name, \<^verbatim>\<open>parseGitHubUrl\<close> returns the owner and the name from
  \<^verbatim>\<open>https://github.com/<owner>/<repo>\<close>, and the same from that URL with \<^verbatim>\<open>.git\<close> appended;
  it returns the same from that URL with \<^verbatim>\<open>/tree/<ref>\<close> appended when moreover the name
  is not \<^verbatim>\<open>tree\<close> (and the ref has no line break). For a URL that does not hold the
  form \<^verbatim>\<open>github.com/<owner>/<repo>\<close> it fails with the invalid-URL error.
\<close>

theorem parseGitHubUrl_round_trip:
  "(validOwner o' \<and> validRepo r \<and> o' \<noteq> ''tree''
      \<longrightarrow> parseGitHubUrl (''https://github.com/'' @ o' @ ''/'' @ r) = Inr (o', r)
          \<and> parseGitHubUrl (''https://github.com/'' @ o' @ ''/'' @ r @ ''.git'') = Inr (o', r)
          \<and> (r \<noteq> ''tree'' \<and> noLineBreak ref
               \<longrightarrow> parseGitHubUrl (''https://github.com/'' @ o' @ ''/'' @ r @ ''/tree/'' @ ref)
                     = Inr (o', r)))
   \<and> (\<not> hasRepoForm url \<longrightarrow> parseGitHubUrl url = Inl (InvalidGitHubUrl url))"
proof (intro conjI impI)
  assume v: "validOwner o' \<and> validRepo r \<and> o' \<noteq> ''tree''"
  then have o: "o' \<noteq> []" "CHR ''/'' \<notin> set o'" "o' \<noteq> ''tree''"
    and r: "r \<noteq> []" "CHR ''/'' \<notin> set r" "\<not> endsWith ''.git'' r"
    using validOwner_plain [of o'] validRepo_plain [of r] by simp_all
  show "parseGitHubUrl (''https://github.com/'' @ o' @ ''/'' @ r) = Inr (o', r)"
    by (rule parse_base [OF o r])
  show "parseGitHubUrl (''https://github.com/'' @ o' @ ''/'' @ r @ ''.git'') = Inr (o', r)"
    by (rule parse_git [OF o r(1,2)])
  assume t: "r \<noteq> ''tree'' \<and> noLineBreak ref"
  then have "list_all (in_class CDot) ref" by (simp add: noLineBreak_def)
  with t show "parseGitHubUrl (''https://github.com/'' @ o' @ ''/'' @ r @ ''/tree/'' @ ref) = Inr (o', r)"
    by (intro parse_tree [OF o r(1,2)]) simp_all
next
  assume "\<not> hasRepoForm url"
  then show "parseGitHubUrl url = Inl (InvalidGitHubUrl url)"
    by (rule parse_no_form)
qed

theorem parseGitHubUrl_round_trip_witness:
  "parseGitHubUrl (''https://github.com/'' @ ''octocat'' @ ''/'' @ ''Hello-World'')
     = Inr (''octocat'', ''Hello-World'')
   \<and> parseGitHubUrl (''https://github.com/'' @ ''octocat'' @ ''/'' @ ''Hello-World'' @ ''.git'')
     = Inr (''octocat'', ''Hello-World'')
   \<and> parseGitHubUrl (''https://github.com/'' @ ''octocat'' @ ''/'' @ ''Hello-World'' @ ''/tree/''
        @ ''main/src'')
     = Inr (''octocat'', ''Hello-World'')
   \<and> parseGitHubUrl ''not-a-url'' = Inl (InvalidGitHubUrl ''not-a-url'')"
proof -
  have v: "validOwner ''octocat'' \<and> validRepo ''Hello-World'' \<and> ''octocat'' \<noteq> ''tree''"
    by code_simp
  have t: "''Hello-World'' \<noteq> ''tree'' \<and> noLineBreak ''main/src''"
    by code_simp
  note n = not_a_url_no_form
  note th = parseGitHubUrl_round_trip
    [of "''octocat''" "''Hello-World''" "''main/src''" "''not-a-url''"]
  note a = mp [OF conjunct1 [OF th] v]
  note b = mp [OF conjunct2 [OF conjunct2 [OF a]] t]
  note c = mp [OF conjunct2 [OF th] n]
  show ?thesis
    by (rule conjI [OF conjunct1 [OF a] conjI [OF conjunct1 [OF conjunct2 [OF a]] conjI [OF b c]]])
qed

text \<open>
  The claim as stated fails for the owner \<^verbatim>\<open>tree\<close>, whose URL the second replacement cuts
  down to \<^verbatim>\<open>https://github.com\<close>, and with a \<^verbatim>\<open>/tree/<ref>\<close> suffix for the repository name
  \<^verbatim>\<open>tree\<close>.
\<close>

theorem parseGitHubUrl_tree_counterexample:
  "validOwner ''tree'' \<and> validRepo ''x''
   \<and> parseGitHubUrl ''https://github.com/tree/x'' = Inl (InvalidGitHubUrl ''https://github.com/tree/x'')
   \<and> validOwner ''o'' \<and> validRepo ''tree''
   \<and> parseGitHubUrl ''https://github.com/o/tree/tree/main''
       = Inl (InvalidGitHubUrl ''https://github.com/o/tree/tree/main'')"
  by code_simp

section \<open>Properties of the index job\<close>

text \<open>
  C9. When the ingestion pipeline produces no chunk (the URL was parsed and the metadata
  request answered, so that the pipeline ran), the job ends with a result, not a failure:
  strategy \<^verbatim>\<open>skipped\<close> and \<^verbatim>\<open>chunksWritten = 0\<close>. Neither the embedding phase nor the write
  to the vector store is run: the job has reported progress 5, 10 and 40 and run the
  phases up to the ingestion, nothing more, and the store is as it was.
\<close>

theorem processIndexRepoJob_empty_corpus:
  assumes "parseGitHubUrl (githubUrl job) = Inr (own, rep)"
    and "reposGet cs own rep (githubToken job) = Inr (branch, repoSize)"
    and "runIngestionPipeline cs \<lparr>inputUrl = githubUrl job, inputToken = githubToken job\<rparr>
           = Inr ingestionResult"
    and "outChunks ingestionResult = []"
  shows "processIndexRepoJob cs job now w
           = (w\<lparr>events := events w @ [Progress 5, MetadataRequested, CommitHashRequested,
                                       Progress 10, IngestionRun, Progress 40]\<rparr>,
              Inr \<lparr>jobRepoId = outRepoId ingestionResult, jobStrategy = Skipped,
                   jobChunksWritten = 0\<rparr>)
         \<and> store (fst (processIndexRepoJob cs job now w)) = store w
         \<and> EmbeddingRun \<notin> set (events (fst (processIndexRepoJob cs job now w))) - set (events w)
         \<and> VectorStoreWriteRun \<notin> set (events (fst (processIndexRepoJob cs job now w))) - set (events w)"
proof -
  from assms have run:
    "processIndexRepoJob cs job now w
       = (w\<lparr>events := events w @ [Progress 5, MetadataRequested, CommitHashRequested,
                                   Progress 10, IngestionRun, Progress 40]\<rparr>,
          Inr \<lparr>jobRepoId = outRepoId ingestionResult, jobStrategy = Skipped,
               jobChunksWritten = 0\<rparr>)"
    by (simp add: processIndexRepoJob_def Let_def emit_def)
  then show ?thesis by auto
qed

theorem processIndexRepoJob_empty_corpus_witness:
  "snd (processIndexRepoJob sampleCollaborators sampleJob 0 \<lparr>store = emptyStore, events = []\<rparr>)
     = Inr \<lparr>jobRepoId = ''octocat/Hello-World'', jobStrategy = Skipped, jobChunksWritten = 0\<rparr>
   \<and> events (fst (processIndexRepoJob sampleCollaborators sampleJob 0
                    \<lparr>store = emptyStore, events = []\<rparr>))
     = [Progress 5, MetadataRequested, CommitHashRequested, Progress 10, IngestionRun, Progress 40]
   \<and> store (fst (processIndexRepoJob sampleCollaborators sampleJob 0
                    \<lparr>store = emptyStore, events = []\<rparr>)) = emptyStore"
proof -
  let ?run = "runIngestionPipeline sampleCollaborators
                \<lparr>inputUrl = githubUrl sampleJob, inputToken = githubToken sampleJob\<rparr>"
  have url: "parseGitHubUrl (githubUrl sampleJob) = Inr (''octocat'', ''Hello-World'')"
    by code_simp
  have data: "reposGet sampleCollaborators ''octocat'' ''Hello-World'' (githubToken sampleJob)
                = Inr (''master'', 1)"
    by (simp add: sampleCollaborators_def)
  have "case ?run of
          Inl err \<Rightarrow> False
        | Inr out \<Rightarrow> outChunks out = [] \<and> outRepoId out = ''octocat/Hello-World''"
    by code_simp
  then obtain out where out: "?run = Inr out" "outChunks out = []"
    "outRepoId out = ''octocat/Hello-World''"
    by (cases ?run) simp_all
  from processIndexRepoJob_empty_corpus [OF url data out(1,2), of 0
      "\<lparr>store = emptyStore, events = []\<rparr>"] out(3)
  show ?thesis by simp
qed

section \<open>Properties of the context assembler\<close>

lemma citationKey_inj: "citationKey a = citationKey b \<Longrightarrow> a = b"
  by (simp add: citationKey_def showNat_inj)

lemma chunkLoop_invariant:
  "chunkLoop cs fb st = (fb', st') \<Longrightarrow>
   \<exists>ncs. fb' = fb @ blocksOf ncs
     \<and> map fst ncs = [citationIndex st ..< citationIndex st']
     \<and> set (map snd ncs) \<subseteq> set cs
     \<and> (\<forall>(n, c) \<in> set ncs. citations st' (citationKey n) = Some (citationOf c))
     \<and> (\<forall>n < citationIndex st. citations st' (citationKey n) = citations st (citationKey n))
     \<and> citationIndex st \<le> citationIndex st'
     \<and> contextBlocks st' = contextBlocks st
     \<and> (cs \<noteq> [] \<and> totalChars st \<le> MAX_CONTEXT_CHARS \<longrightarrow> ncs \<noteq> [])"
proof (induction cs arbitrary: fb st)
  case Nil
  then show ?case by (intro exI [of _ "[]"]) (simp add: blocksOf_def)
next
  case (Cons c cs)
  show ?case
  proof (cases "totalChars st > MAX_CONTEXT_CHARS")
    case True
    with Cons.prems show ?thesis by (intro exI [of _ "[]"]) (simp add: blocksOf_def)
  next
    case False
    let ?i = "citationIndex st"
    let ?key = "citationKey ?i"
    let ?block = "chunkBlock ?key c"
    let ?st1 = "st\<lparr>citations := (citations st)(?key \<mapsto> citationOf c),
                   totalChars := totalChars st + length ?block,
                   citationIndex := ?i + 1\<rparr>"
    from False Cons.prems have "chunkLoop cs (fb @ [?block]) ?st1 = (fb', st')"
      by (simp add: Let_def)
    from Cons.IH [OF this] obtain ncs where
      fb': "fb' = (fb @ [?block]) @ blocksOf ncs"
      and nums: "map fst ncs = [citationIndex ?st1 ..< citationIndex st']"
      and sub: "set (map snd ncs) \<subseteq> set cs"
      and ent: "\<forall>(n, c) \<in> set ncs. citations st' (citationKey n) = Some (citationOf c)"
      and old: "\<forall>n < citationIndex ?st1. citations st' (citationKey n) = citations ?st1 (citationKey n)"
      and mono: "citationIndex ?st1 \<le> citationIndex st'"
      and blocks: "contextBlocks st' = contextBlocks ?st1"
      by blast
    from old have here: "citations st' ?key = Some (citationOf c)" by simp
    have older: "\<forall>n < ?i. citations st' (citationKey n) = citations st (citationKey n)"
    proof (intro allI impI)
      fix n assume "n < ?i"
      then have "citationKey n \<noteq> ?key" using citationKey_inj [of n ?i] by auto
      with old \<open>n < ?i\<close> show "citations st' (citationKey n) = citations st (citationKey n)"
        by simp
    qed
    from mono have range: "[?i ..< citationIndex st'] = ?i # [?i + 1 ..< citationIndex st']"
      by (simp add: upt_conv_Cons)
    show ?thesis
    proof (intro exI [of _ "(?i, c) # ncs"] conjI)
      show "fb' = fb @ blocksOf ((?i, c) # ncs)" using fb' by (simp add: blocksOf_def)
      show "map fst ((?i, c) # ncs) = [?i ..< citationIndex st']" using nums range by simp
      show "set (map snd ((?i, c) # ncs)) \<subseteq> set (c # cs)" using sub by auto
      show "\<forall>(n, c) \<in> set ((?i, c) # ncs). citations st' (citationKey n) = Some (citationOf c)"
        using ent here by simp
      show "\<forall>n < ?i. citations st' (citationKey n) = citations st (citationKey n)" by (rule older)
      show "?i \<le> citationIndex st'" using mono by simp
      show "contextBlocks st' = contextBlocks st" using blocks by simp
      show "c # cs \<noteq> [] \<and> totalChars st \<le> MAX_CONTEXT_CHARS \<longrightarrow> (?i, c) # ncs \<noteq> []" by simp
    qed
  qed
qed

lemma renderFile_blocks:
  "renderFile (fp, ncs) = join ''\<newline>\<newline>'' ([fileHeader fp] @ blocksOf ncs)"
  by (simp add: renderFile_def blocksOf_def)

lemma fileLoop_invariant:
  "fileLoop gs st = st' \<Longrightarrow>
   \<exists>fs. contextBlocks st' = contextBlocks st @ map renderFile fs
     \<and> map fst (markers fs) = [citationIndex st ..< citationIndex st']
     \<and> set (map snd (markers fs)) \<subseteq> (\<Union>g \<in> set gs. set (snd g))
     \<and> (\<forall>(n, c) \<in> set (markers fs). citations st' (citationKey n) = Some (citationOf c))
     \<and> (\<forall>n < citationIndex st. citations st' (citationKey n) = citations st (citationKey n))
     \<and> citationIndex st \<le> citationIndex st'
     \<and> (gs \<noteq> [] \<and> snd (hd gs) \<noteq> [] \<and> totalChars st \<le> MAX_CONTEXT_CHARS \<longrightarrow> markers fs \<noteq> [])"
proof (induction gs arbitrary: st)
  case Nil
  then show ?case by (intro exI [of _ "[]"]) (simp add: markers_def)
next
  case (Cons g gs)
  obtain fp fileChunks where g: "g = (fp, fileChunks)" by (cases g)
  obtain fb st1 where inner: "chunkLoop fileChunks [fileHeader fp] st = (fb, st1)" by force
  let ?st2 = "st1\<lparr>contextBlocks := contextBlocks st1 @ [join ''\<newline>\<newline>'' fb]\<rparr>"
  from Cons.prems g inner have rest: "fileLoop gs ?st2 = st'" by simp
  from chunkLoop_invariant [OF inner] obtain ncs where
    fb: "fb = [fileHeader fp] @ blocksOf ncs"
    and nums1: "map fst ncs = [citationIndex st ..< citationIndex st1]"
    and sub1: "set (map snd ncs) \<subseteq> set fileChunks"
    and ent1: "\<forall>(n, c) \<in> set ncs. citations st1 (citationKey n) = Some (citationOf c)"
    and old1: "\<forall>n < citationIndex st. citations st1 (citationKey n) = citations st (citationKey n)"
    and mono1: "citationIndex st \<le> citationIndex st1"
    and blocks1: "contextBlocks st1 = contextBlocks st"
    and first1: "fileChunks \<noteq> [] \<and> totalChars st \<le> MAX_CONTEXT_CHARS \<longrightarrow> ncs \<noteq> []"
    by blast
  from Cons.IH [OF rest] obtain fs where
    blocks2: "contextBlocks st' = contextBlocks ?st2 @ map renderFile fs"
    and nums2: "map fst (markers fs) = [citationIndex ?st2 ..< citationIndex st']"
    and sub2: "set (map snd (markers fs)) \<subseteq> (\<Union>g \<in> set gs. set (snd g))"
    and ent2: "\<forall>(n, c) \<in> set (markers fs). citations st' (citationKey n) = Some (citationOf c)"
    and old2: "\<forall>n < citationIndex ?st2. citations st' (citationKey n) = citations ?st2 (citationKey n)"
    and mono2: "citationIndex ?st2 \<le> citationIndex st'"
    by blast
  have m: "markers ((fp, ncs) # fs) = ncs @ markers fs" by (simp add: markers_def)
  have kept: "\<forall>(n, c) \<in> set ncs. citations st' (citationKey n) = Some (citationOf c)"
  proof (clarify)
    fix n c assume nc: "(n, c) \<in> set ncs"
    then have "n \<in> set (map fst ncs)" by force
    with nums1 have "n < citationIndex st1" by simp
    with old2 have "citations st' (citationKey n) = citations st1 (citationKey n)" by simp
    with ent1 nc show "citations st' (citationKey n) = Some (citationOf c)" by auto
  qed
  show ?case
  proof (intro exI [of _ "(fp, ncs) # fs"] conjI)
    show "contextBlocks st' = contextBlocks st @ map renderFile ((fp, ncs) # fs)"
      using blocks2 blocks1 fb by (simp add: renderFile_blocks)
    show "map fst (markers ((fp, ncs) # fs)) = [citationIndex st ..< citationIndex st']"
    proof -
      from mono1 mono2
      have "[citationIndex st ..< citationIndex st']
              = [citationIndex st ..< citationIndex st1] @ [citationIndex st1 ..< citationIndex st']"
        using upt_add_eq_append [of "citationIndex st" "citationIndex st1"
            "citationIndex st' - citationIndex st1"]
        by simp
      with nums1 nums2 m show ?thesis by simp
    qed
    show "set (map snd (markers ((fp, ncs) # fs))) \<subseteq> (\<Union>g \<in> set (g # gs). set (snd g))"
      using sub1 sub2 m g by auto
    show "\<forall>(n, c) \<in> set (markers ((fp, ncs) # fs)). citations st' (citationKey n) = Some (citationOf c)"
      using kept ent2 m by auto
    show "\<forall>n < citationIndex st. citations st' (citationKey n) = citations st (citationKey n)"
      using old1 old2 mono1 by simp
    show "citationIndex st \<le> citationIndex st'" using mono1 mono2 by simp
    show "g # gs \<noteq> [] \<and> snd (hd (g # gs)) \<noteq> [] \<and> totalChars st \<le> MAX_CONTEXT_CHARS
            \<longrightarrow> markers ((fp, ncs) # fs) \<noteq> []"
      using first1 m g by simp
  qed
qed

lemma pushChunk_within:
  "groups_within cs g \<Longrightarrow> c \<in> set cs \<Longrightarrow> groups_within cs (pushChunk c g)"
proof -
  assume w: "groups_within cs g" and c: "c \<in> set cs"
  show "groups_within cs (pushChunk c g)"
    unfolding groups_within_def
  proof (intro allI impI)
    fix k v assume kv: "(k, v) \<in> set (pushChunk c g)"
    show "v \<noteq> [] \<and> set v \<subseteq> set cs"
    proof (cases "rFilePath c \<in> set (map fst g)")
      case False
      with kv have "(k, v) \<in> set g \<or> v = [c]" by (auto simp: pushChunk_def)
      with w c show ?thesis unfolding groups_within_def by auto
    next
      case True
      with kv obtain k0 v0 where old: "(k0, v0) \<in> set g"
        and new: "(k, v) = (if k0 = rFilePath c then (k0, v0 @ [c]) else (k0, v0))"
        by (auto simp: pushChunk_def)
      from w old have "v0 \<noteq> [] \<and> set v0 \<subseteq> set cs" unfolding groups_within_def by blast
      with new c show ?thesis by (cases "k0 = rFilePath c") auto
    qed
  qed
qed

lemma pushChunk_nonempty: "pushChunk c g \<noteq> []"
  by (auto simp: pushChunk_def)

lemma groupLoop_within:
  "groupLoop cs g = Inr g' \<Longrightarrow> groups_within all g \<Longrightarrow> set cs \<subseteq> set all
   \<Longrightarrow> groups_within all g' \<and> (cs \<noteq> [] \<longrightarrow> g' \<noteq> []) \<and> (g \<noteq> [] \<longrightarrow> g' \<noteq> [])"
proof (induction cs arbitrary: g)
  case Nil
  then show ?case by simp
next
  case (Cons c cs)
  from Cons.prems(1) have run: "groupLoop cs (pushChunk c g) = Inr g'"
    by (simp split: if_splits)
  from Cons.prems have "groups_within all (pushChunk c g)"
    by (simp add: pushChunk_within)
  from Cons.IH [OF run this] Cons.prems(3) pushChunk_nonempty [of c g] show ?case
    by simp
qed

lemma groupLoop_returns:
  "\<forall>c \<in> set cs. rFilePath c \<notin> set objectPrototypeKeys \<Longrightarrow> \<exists>g'. groupLoop cs g = Inr g'"
  by (induction cs arbitrary: g) simp_all

lemma set_objectEntries: "set (objectEntries g) = set g"
  by (auto simp: objectEntries_def)

lemma groupByFile_within:
  assumes "groupByFile cs = Inr g"
  shows "groups_within cs g \<and> (cs \<noteq> [] \<longrightarrow> g \<noteq> [])"
proof -
  from assms obtain g0 where g0: "groupLoop cs [] = Inr g0"
    and g: "g = objectEntries (map (\<lambda>(k, v). (k, sort_key rStartLine v)) g0)"
    by (auto simp: groupByFile_def split: sum.splits)
  have "groups_within cs []" by (simp add: groups_within_def)
  from groupLoop_within [OF g0 this] have w0: "groups_within cs g0" and ne: "cs \<noteq> [] \<longrightarrow> g0 \<noteq> []"
    by simp_all
  have sorted_group: "\<And>v. v \<noteq> [] \<Longrightarrow> sort_key rStartLine v \<noteq> []"
    by (metis length_0_conv length_sort)
  have "groups_within cs g"
    unfolding groups_within_def
  proof (intro allI impI)
    fix k v assume "(k, v) \<in> set g"
    with g have "(k, v) \<in> set (map (\<lambda>(k, v). (k, sort_key rStartLine v)) g0)"
      by (simp add: set_objectEntries)
    then obtain v0 where "(k, v0) \<in> set g0" and v: "v = sort_key rStartLine v0"
      by auto
    with w0 have "v0 \<noteq> [] \<and> set v0 \<subseteq> set cs" unfolding groups_within_def by blast
    with v sorted_group [of v0] show "v \<noteq> [] \<and> set v \<subseteq> set cs" by simp
  qed
  moreover have "cs \<noteq> [] \<longrightarrow> g \<noteq> []"
  proof
    assume "cs \<noteq> []"
    with ne obtain x xs where "g0 = x # xs" by (cases g0) auto
    then have "set (map (\<lambda>(k, v). (k, sort_key rStartLine v)) g0) \<noteq> {}" by simp
    then have "set g \<noteq> {}" unfolding g set_objectEntries .
    then show "g \<noteq> []" by auto
  qed
  ultimately show ?thesis by simp
qed

lemma groupByFile_returns:
  "\<forall>c \<in> set cs. rFilePath c \<notin> set objectPrototypeKeys \<Longrightarrow> \<exists>g. groupByFile cs = Inr g"
  using groupLoop_returns [of cs "[]"] by (auto simp: groupByFile_def)

text \<open>
  C7. \<^verbatim>\<open>assembleContext\<close> returns for every list of chunks none of whose paths is a
  property name of \<^verbatim>\<open>Object.prototype\<close> (for such a path the grouping throws). The user
  prompt it returns is the rendering of a list of files with numbered chunks: the markers
  in it are \<^verbatim>\<open>[1]\<close>, \<^verbatim>\<open>[2]\<close>, ... in order, each one heads the block of one of the retrieved
  chunks, and for each of them \<^verbatim>\<open>citationMap["[N]"]\<close> exists and records the file path, the
  start line, the end line and the symbol name of that chunk. When chunks were retrieved,
  at least one marker is there.
\<close>

theorem assembleContext_citation_totality:
  "(list_all (\<lambda>c. rFilePath c \<notin> set objectPrototypeKeys) cs
      \<longrightarrow> (\<exists>res. assembleContext query cs rid = Inr res))
   \<and> (assembleContext query cs rid = Inr res
      \<longrightarrow> (\<exists>fs. userPrompt res = buildUserPrompt query (renderContext fs)
             \<and> map fst (markers fs) = [1 ..< Suc (length (markers fs))]
             \<and> (\<forall>(n, c) \<in> set (markers fs).
                   c \<in> set cs \<and> citationMap res (citationKey n) = Some (citationOf c))
             \<and> (cs \<noteq> [] \<longrightarrow> markers fs \<noteq> [])))"
proof (intro conjI impI)
  assume "list_all (\<lambda>c. rFilePath c \<notin> set objectPrototypeKeys) cs"
  then have "\<forall>c \<in> set cs. rFilePath c \<notin> set objectPrototypeKeys" by (simp add: list_all_iff)
  from groupByFile_returns [OF this] show "\<exists>res. assembleContext query cs rid = Inr res"
    by (auto simp: assembleContext_def Let_def)
next
  assume res: "assembleContext query cs rid = Inr res"
  let ?init = "\<lparr>contextBlocks = [], citations = Map.empty, citationIndex = 1, totalChars = 0\<rparr>"
  from res obtain g where g: "groupByFile cs = Inr g"
    by (auto simp: assembleContext_def split: sum.splits)
  let ?st = "fileLoop g ?init"
  from res g have up: "userPrompt res
      = buildUserPrompt query (join ''\<newline>\<newline>---\<newline>\<newline>'' (contextBlocks ?st))"
    and cm: "citationMap res = citations ?st"
    by (auto simp: assembleContext_def Let_def)
  from groupByFile_within [OF g] have within: "groups_within cs g" and ne: "cs \<noteq> [] \<longrightarrow> g \<noteq> []"
    by simp_all
  from fileLoop_invariant [of g ?init ?st] obtain fs where
    blocks: "contextBlocks ?st = map renderFile fs"
    and nums: "map fst (markers fs) = [1 ..< citationIndex ?st]"
    and sub: "set (map snd (markers fs)) \<subseteq> (\<Union>g \<in> set g. set (snd g))"
    and ent: "\<forall>(n, c) \<in> set (markers fs). citations ?st (citationKey n) = Some (citationOf c)"
    and first: "g \<noteq> [] \<and> snd (hd g) \<noteq> [] \<and> (0::nat) \<le> MAX_CONTEXT_CHARS \<longrightarrow> markers fs \<noteq> []"
    by auto
  from nums have "length (markers fs) = citationIndex ?st - 1"
    by (metis length_map length_upt)
  with nums have range: "map fst (markers fs) = [1 ..< Suc (length (markers fs))]"
    by (cases "citationIndex ?st") auto
  have mem: "\<forall>(n, c) \<in> set (markers fs). c \<in> set cs"
  proof (clarify)
    fix n c assume "(n, c) \<in> set (markers fs)"
    then have "c \<in> set (map snd (markers fs))" by force
    with sub obtain k v where "(k, v) \<in> set g" "c \<in> set v" by auto
    with within show "c \<in> set cs" unfolding groups_within_def by blast
  qed
  from within have "g \<noteq> [] \<longrightarrow> snd (hd g) \<noteq> []"
    unfolding groups_within_def by (cases g) auto
  with ne first have some: "cs \<noteq> [] \<longrightarrow> markers fs \<noteq> []" by simp
  show "\<exists>fs. userPrompt res = buildUserPrompt query (renderContext fs)
          \<and> map fst (markers fs) = [1 ..< Suc (length (markers fs))]
          \<and> (\<forall>(n, c) \<in> set (markers fs).
                c \<in> set cs \<and> citationMap res (citationKey n) = Some (citationOf c))
          \<and> (cs \<noteq> [] \<longrightarrow> markers fs \<noteq> [])"
    using up blocks range mem ent cm some
    by (intro exI [of _ fs]) (auto simp: renderContext_def)
qed

theorem assembleContext_citation_totality_witness:
  "\<exists>res fs. assembleContext ''where is auth?'' sampleRetrieved ''o/r'' = Inr res
     \<and> userPrompt res = buildUserPrompt ''where is auth?'' (renderContext fs)
     \<and> markers fs \<noteq> []
     \<and> list_all (\<lambda>(n, c). citationMap res (citationKey n) = Some (citationOf c)) (markers fs)
     \<and> (\<exists>c. c \<in> set sampleRetrieved \<and> citationMap res ''[1]'' = Some (citationOf c))"
proof -
  have ok: "list_all (\<lambda>c. rFilePath c \<notin> set objectPrototypeKeys) sampleRetrieved"
    by (simp add: sampleRetrieved_def objectPrototypeKeys_def)
  have some: "sampleRetrieved \<noteq> []"
    by (simp add: sampleRetrieved_def)
  have key: "citationKey 1 = ''[1]''"
    by code_simp
  note t = assembleContext_citation_totality [of sampleRetrieved "''where is auth?''" "''o/r''"]
  from t ok obtain res where res: "assembleContext ''where is auth?'' sampleRetrieved ''o/r'' = Inr res"
    by blast
  with t [of res] some obtain fs where
    up: "userPrompt res = buildUserPrompt ''where is auth?'' (renderContext fs)"
    and nums: "map fst (markers fs) = [1 ..< Suc (length (markers fs))]"
    and ent: "\<forall>(n, c) \<in> set (markers fs).
                c \<in> set sampleRetrieved \<and> citationMap res (citationKey n) = Some (citationOf c)"
    and ne: "markers fs \<noteq> []"
    by blast
  from ne obtain n c rest where m: "markers fs = (n, c) # rest"
    by (cases "markers fs") auto
  from ne have "hd [1 ..< Suc (length (markers fs))] = 1"
    by (intro hd_upt) (cases "markers fs", simp_all)
  moreover from nums have "hd (map fst (markers fs)) = hd [1 ..< Suc (length (markers fs))]"
    by (rule arg_cong)
  ultimately have "n = 1" using m by simp
  with m ent key have first: "c \<in> set sampleRetrieved \<and> citationMap res ''[1]'' = Some (citationOf c)"
    by auto
  from ent have "list_all (\<lambda>(n, c). citationMap res (citationKey n) = Some (citationOf c)) (markers fs)"
    by (auto simp: list_all_iff)
  with res up ne first show ?thesis by blast
qed

end
